theory Spec2Isabelle
  imports Main "HOL-Library.AList" "HOL-Library.Sublist"
begin

section \<open>Tokens, lifecycles and classes (container/types.ts, metadata.ts, decorators.ts)\<close>

text \<open>
  A JavaScript symbol has an identity and carries the description it was created with;
  \<^verbatim>\<open>Symbol(d).toString()\<close> is the text \<^verbatim>\<open>Symbol(d)\<close>. Two symbols are \<^verbatim>\<open>===\<close> exactly
  when they are the same symbol, so equality of the values below is the source's
  comparison of symbols, and a \<^verbatim>\<open>Map<symbol, _>\<close> is keyed by them.
\<close>

datatype symbol = Symbol (ident: nat) (descr: string)

definition toString :: "symbol \<Rightarrow> string" where
  "toString s = ''Symbol('' @ descr s @ '')''"

record token =
  symbol :: symbol
  description :: string

text \<open>\<^verbatim>\<open>createToken(description)\<close>; the first argument is the identity of the new symbol.\<close>

definition createToken :: "nat \<Rightarrow> string \<Rightarrow> token" where
  "createToken n d = \<lparr>symbol = Symbol n d, description = d\<rparr>"

datatype lifecycle = Singleton | Transient

text \<open>
  An object: its reference and the class that made it. The source compares instances
  with \<^verbatim>\<open>===\<close>, that is by reference; here two objects are the same when the values
  are equal.
\<close>

datatype inst = Obj (ref: nat) (class_of: nat)

text \<open>
  What a constructor throws: an \<^verbatim>\<open>Error\<close> with its message, or some other value.
\<close>

datatype thrown = ErrorObj string | NonError

text \<open>
  What running a constructor under \<^verbatim>\<open>new\<close> ends in: it returns normally, and the
  \<^verbatim>\<open>new\<close> expression is the newly created object; or it executes \<^verbatim>\<open>return obj\<close> with
  an object, and the \<^verbatim>\<open>new\<close> expression is that object, which may have existed before
  (a memoising constructor, a shared instance); or it throws.
\<close>

datatype ctor_outcome = Returns | ReturnsObject inst | Throws thrown

text \<open>
  An element of the array kept under \<^verbatim>\<open>INJECT_TOKENS_KEY\<close>. The \<^verbatim>\<open>@inject\<close> decorator
  assigns \<^verbatim>\<open>existingTokens[parameterIndex] = token\<close>, so a parameter without decorator
  leaves a missing index (\<open>Hole\<close>) in a sparse array; \<open>Undef\<close> is an index that is
  present and holds a falsy value.
\<close>

datatype slot = Hole | Undef | Tok token

text \<open>
  A class as the container sees it: the identity and \<^verbatim>\<open>name\<close> of the constructor
  function, the metadata the decorators attached, and what \<^verbatim>\<open>new\<close> does.
  \<open>inject_tokens\<close> is read by the constructor-injection revision of the container only,
  \<open>gets\<close> (the \<^verbatim>\<open>get(token)\<close> calls of the property initialisers, in order) by the
  ambient-context revision only. \<open>body\<close> is the outcome of the constructor's own code
  for given arguments and given objects in existence (the second argument), so that a
  constructor can hand out an object made earlier.
\<close>

record class_decl =
  cid :: nat
  cname :: string
  injectable :: bool
  lifecycle_meta :: "lifecycle option"
  inject_tokens :: "slot list option"
  gets :: "token list"
  body :: "inst option list \<Rightarrow> inst list \<Rightarrow> ctor_outcome"

definition isInjectable :: "class_decl \<Rightarrow> bool" where
  "isInjectable target = injectable target"

definition getLifecycle :: "class_decl \<Rightarrow> lifecycle option" where
  "getLifecycle target = lifecycle_meta target"

definition getInjectTokens :: "class_decl \<Rightarrow> slot list option" where
  "getInjectTokens target = inject_tokens target"

text \<open>The argument of \<^verbatim>\<open>register\<close> at run time: a function, or anything else.\<close>

datatype implementation = Fn class_decl | NotAFunction

section \<open>Errors (container/errors.ts, container/context.ts)\<close>

datatype error =
    DependencyNotFoundError token
  | CircularDependencyError "token list"
  | InvalidConstructorError token string
  | NotInjectableError string
  | NoActiveContainerError

text \<open>\<^verbatim>\<open>Array.prototype.join\<close>.\<close>

fun join :: "string \<Rightarrow> string list \<Rightarrow> string" where
  "join sep [] = []"
| "join sep [x] = x"
| "join sep (x # y # ys) = x @ sep @ join sep (y # ys)"

fun message :: "error \<Rightarrow> string" where
  "message (DependencyNotFoundError t) =
     ''Dependency not found: '' @ description t @ '' ('' @ toString (symbol t) @ '')''"
| "message (CircularDependencyError chain) =
     ''Circular dependency detected: '' @ join '' -> '' (map description chain)"
| "message (InvalidConstructorError t m) =
     ''Invalid constructor for '' @ description t @ '': '' @ m"
| "message (NotInjectableError className) =
     ''Class '' @ className @
     '' is not marked as injectable. Use @injectable(), @singleton(), or @transient() decorator.''"
| "message NoActiveContainerError =
     ''No active container. Call setContainer() before using get(), or ensure resolve() has been called.''"

text \<open>\<^verbatim>\<open>error instanceof Error ? error.message : 'Unknown error'\<close>\<close>

fun caught_message :: "thrown \<Rightarrow> string" where
  "caught_message (ErrorObj m) = m"
| "caught_message NonError = ''Unknown error''"

section \<open>The container: bindings, cache, resolution stack\<close>

record binding =
  implementation :: class_decl
  lifecycle :: lifecycle
  token :: token

text \<open>
  The two \<^verbatim>\<open>Map\<close>s keyed by symbol are association lists: \<open>AList.update\<close> replaces the
  value of a key that is present and appends a new key, as \<^verbatim>\<open>Map.set\<close> does.
  \<open>typeToTokenMap\<close> is keyed by the constructor function, that is by its identity.
\<close>

record container =
  bindings :: "(symbol \<times> binding) list"
  singletons :: "(symbol \<times> inst) list"
  resolutionStack :: "token list"
  typeToTokenMap :: "(nat \<times> token) list"

definition new_container :: container where
  "new_container = \<lparr>bindings = [], singletons = [], resolutionStack = [], typeToTokenMap = []\<rparr>"

text \<open>\<^verbatim>\<open>Map.has\<close>\<close>

definition has :: "('k \<times> 'v) list \<Rightarrow> 'k \<Rightarrow> bool" where
  "has m k = (map_of m k \<noteq> None)"

text \<open>
  \<^verbatim>\<open>register(token, implementation)\<close>; the same in both revisions of Container.ts.
  \<^verbatim>\<open>getLifecycle(implementation) || Lifecycle.Transient\<close> is the declared lifecycle, or
  Transient when there is none.
\<close>

definition register :: "container \<Rightarrow> token \<Rightarrow> implementation \<Rightarrow> error + container" where
  "register c tok impl =
     (case impl of
        NotAFunction \<Rightarrow>
          Inl (InvalidConstructorError tok ''Implementation must be a constructor function'')
      | Fn cls \<Rightarrow>
          if \<not> isInjectable cls then Inl (NotInjectableError (cname cls))
          else
            let lc = (case getLifecycle cls of Some l \<Rightarrow> l | None \<Rightarrow> Transient);
                b = \<lparr>implementation = cls, lifecycle = lc, token = tok\<rparr>
            in Inr (c\<lparr>bindings := AList.update (symbol tok) b (bindings c),
                      typeToTokenMap := AList.update (cid cls) tok (typeToTokenMap c)\<rparr>))"

definition isRegistered :: "container \<Rightarrow> token \<Rightarrow> bool" where
  "isRegistered c tok = has (bindings c) (symbol tok)"

definition clear :: "container \<Rightarrow> container" where
  "clear c = c\<lparr>singletons := [], resolutionStack := []\<rparr>"

definition reset :: "container \<Rightarrow> container" where
  "reset c = c\<lparr>bindings := [], singletons := [], resolutionStack := [], typeToTokenMap := []\<rparr>"

section \<open>The resolution engine with constructor injection (src/container/Container.ts)\<close>

text \<open>
  The state a call works on: the container (\<^verbatim>\<open>this\<close>) and the objects in existence,
  in the order in which they appeared. A newly created object gets a reference above
  all of theirs.
\<close>

record runtime =
  this :: container
  objects :: "inst list"

definition next_ref :: "inst list \<Rightarrow> nat" where
  "next_ref objs = foldr (\<lambda>obj n. max (Suc (ref obj)) n) objs 0"

text \<open>
  \<^verbatim>\<open>this.resolutionStack.push(token)\<close>, \<^verbatim>\<open>this.resolutionStack.pop()\<close> (which removes
  the last element, and nothing from an empty array) and
  \<^verbatim>\<open>this.singletons.set(token.symbol, instance)\<close>.
\<close>

definition push :: "token \<Rightarrow> runtime \<Rightarrow> runtime" where
  "push tok rt = rt\<lparr>this := (this rt)\<lparr>resolutionStack := resolutionStack (this rt) @ [tok]\<rparr>\<rparr>"

definition pop :: "runtime \<Rightarrow> runtime" where
  "pop rt = rt\<lparr>this := (this rt)\<lparr>resolutionStack := butlast (resolutionStack (this rt))\<rparr>\<rparr>"

definition cache :: "symbol \<Rightarrow> inst \<Rightarrow> runtime \<Rightarrow> runtime" where
  "cache k v rt = rt\<lparr>this := (this rt)\<lparr>singletons := AList.update k v (singletons (this rt))\<rparr>\<rparr>"

text \<open>
  \<^verbatim>\<open>new ctor(...args)\<close> evaluates to the newly created object of the class when the
  constructor returns normally, and to the object the constructor returns when it
  returns one; that object is in existence afterwards, if it was not before. In this
  revision the classes get their dependencies as arguments, and the constructors do not
  call the container.
\<close>

definition new :: "class_decl \<Rightarrow> inst option list \<Rightarrow> runtime \<Rightarrow> (thrown + inst) \<times> runtime" where
  "new ctor args rt =
     (case body ctor args (objects rt) of
        Returns \<Rightarrow>
          (Inr (Obj (next_ref (objects rt)) (cid ctor)),
           rt\<lparr>objects := objects rt @ [Obj (next_ref (objects rt)) (cid ctor)]\<rparr>)
      | ReturnsObject obj \<Rightarrow>
          (Inr obj, if obj \<in> set (objects rt) then rt else rt\<lparr>objects := objects rt @ [obj]\<rparr>)
      | Throws x \<Rightarrow> (Inl x, rt))"

text \<open>
  \<^verbatim>\<open>resolve\<close> and \<^verbatim>\<open>createInstance\<close>, with the result and the state left behind; a
  thrown error is \<open>Inl\<close>, and the state is the one at the moment of the throw after the
  \<^verbatim>\<open>finally\<close> blocks on the way have run. \<open>resolveDeps\<close> is the callback of
  \<^verbatim>\<open>injectTokens.map\<close> run over the array from left to right: \<^verbatim>\<open>map\<close> does not call
  the callback on a missing index and leaves the index missing in its result, which
  \<^verbatim>\<open>new ctor(...resolvedDeps)\<close> then passes as \<^verbatim>\<open>undefined\<close> (\<open>None\<close>).
\<close>

function resolve :: "runtime \<Rightarrow> token \<Rightarrow> (error + inst) \<times> runtime"
  and createInstance :: "runtime \<Rightarrow> token \<Rightarrow> class_decl \<Rightarrow> (error + inst) \<times> runtime"
  and resolveDeps :: "runtime \<Rightarrow> token \<Rightarrow> slot list \<Rightarrow> (error + inst option list) \<times> runtime"
where
  "resolve rt tok =
     (case map_of (bindings (this rt)) (symbol tok) of
        None \<Rightarrow> (Inl (DependencyNotFoundError tok), rt)
      | Some b \<Rightarrow>
          if list_ex (\<lambda>t. symbol t = symbol tok) (resolutionStack (this rt))
          then (Inl (CircularDependencyError (resolutionStack (this rt) @ [tok])), rt)
          else if lifecycle b = Singleton \<and> has (singletons (this rt)) (symbol tok)
          then (Inr (the (map_of (singletons (this rt)) (symbol tok))), rt)
          else
            (case createInstance (push tok rt) tok (implementation b) of
               (Inr v, rt') \<Rightarrow>
                 (Inr v, pop (if lifecycle b = Singleton then cache (symbol tok) v rt' else rt'))
             | (Inl e, rt') \<Rightarrow> (Inl e, pop rt')))"
| "createInstance rt tok ctor =
     (case getInjectTokens ctor of
        None \<Rightarrow>
          (case new ctor [] rt of
             (Inr v, rt') \<Rightarrow> (Inr v, rt')
           | (Inl x, rt') \<Rightarrow>
               (Inl (InvalidConstructorError tok
                  (''Failed to instantiate (no dependencies declared with @inject): '' @
                   caught_message x)), rt'))
      | Some [] \<Rightarrow>
          (case new ctor [] rt of
             (Inr v, rt') \<Rightarrow> (Inr v, rt')
           | (Inl x, rt') \<Rightarrow>
               (Inl (InvalidConstructorError tok
                  (''Failed to instantiate (no dependencies declared with @inject): '' @
                   caught_message x)), rt'))
      | Some (d # ds) \<Rightarrow>
          (case resolveDeps rt tok (d # ds) of
             (Inl e, rt') \<Rightarrow> (Inl e, rt')
           | (Inr resolvedDeps, rt') \<Rightarrow>
               (case new ctor resolvedDeps rt' of
                  (Inr v, rt'') \<Rightarrow> (Inr v, rt'')
                | (Inl x, rt'') \<Rightarrow>
                    (Inl (InvalidConstructorError tok
                       (''Failed to instantiate: '' @ caught_message x)), rt''))))"
| "resolveDeps rt tok [] = (Inr [], rt)"
| "resolveDeps rt tok (Hole # ds) =
     (case resolveDeps rt tok ds of
        (Inl e, rt') \<Rightarrow> (Inl e, rt')
      | (Inr vs, rt') \<Rightarrow> (Inr (None # vs), rt'))"
| "resolveDeps rt tok (Undef # ds) =
     (Inl (InvalidConstructorError tok ''Missing @inject decorator for constructor parameter''), rt)"
| "resolveDeps rt tok (Tok depToken # ds) =
     (if \<not> has (bindings (this rt)) (symbol depToken)
      then (Inl (DependencyNotFoundError depToken), rt)
      else
        (case resolve rt depToken of
           (Inl e, rt') \<Rightarrow> (Inl e, rt')
         | (Inr v, rt') \<Rightarrow>
             (case resolveDeps rt' tok ds of
                (Inl e, rt'') \<Rightarrow> (Inl e, rt'')
              | (Inr vs, rt'') \<Rightarrow> (Inr (Some v # vs), rt''))))"
  by pat_completeness auto


lemma new_this: "new ctor args rt = (r, rt') \<Longrightarrow> this rt' = this rt"
  by (auto simp: new_def split: ctor_outcome.splits)

lemma frame_dom:
  "resolve_createInstance_resolveDeps_dom (Inl (rt, tok)) \<Longrightarrow>
     bindings (this (snd (resolve rt tok))) = bindings (this rt) \<and>
     resolutionStack (this (snd (resolve rt tok))) = resolutionStack (this rt) \<and>
     typeToTokenMap (this (snd (resolve rt tok))) = typeToTokenMap (this rt)"
  "resolve_createInstance_resolveDeps_dom (Inr (Inl (rt2, tok2, ctor))) \<Longrightarrow>
     bindings (this (snd (createInstance rt2 tok2 ctor))) = bindings (this rt2) \<and>
     resolutionStack (this (snd (createInstance rt2 tok2 ctor))) = resolutionStack (this rt2) \<and>
     typeToTokenMap (this (snd (createInstance rt2 tok2 ctor))) = typeToTokenMap (this rt2)"
  "resolve_createInstance_resolveDeps_dom (Inr (Inr (rt3, tok3, ds))) \<Longrightarrow>
     bindings (this (snd (resolveDeps rt3 tok3 ds))) = bindings (this rt3) \<and>
     resolutionStack (this (snd (resolveDeps rt3 tok3 ds))) = resolutionStack (this rt3) \<and>
     typeToTokenMap (this (snd (resolveDeps rt3 tok3 ds))) = typeToTokenMap (this rt3)"
proof (induct rule: resolve_createInstance_resolveDeps.pinduct)
  case (1 rt tok)
  then show ?case
    by (auto simp: resolve.psimps push_def pop_def cache_def split: option.splits prod.splits sum.splits)
next
  case (2 rt tok ctor)
  then show ?case
    by (auto simp: createInstance.psimps dest!: new_this split: option.splits list.splits prod.splits sum.splits)
next
  case (3 rt tok)
  then show ?case by (simp add: resolveDeps.psimps)
next
  case (4 rt tok ds)
  then show ?case by (auto simp: resolveDeps.psimps split: prod.splits sum.splits)
next
  case (5 rt tok ds)
  then show ?case by (simp add: resolveDeps.psimps)
next
  case (6 rt tok depToken ds)
  then show ?case
    by (auto simp: resolveDeps.psimps split: prod.splits sum.splits)
qed


definition pending :: "runtime \<Rightarrow> nat" where
  "pending rt = card (fst ` set (bindings (this rt)) - symbol ` set (resolutionStack (this rt)))"

lemma pending_push:
  assumes "map_of (bindings (this rt)) (symbol tok) = Some b"
    and "\<not> list_ex (\<lambda>t. symbol t = symbol tok) (resolutionStack (this rt))"
  shows "pending (push tok rt) < pending rt"
proof -
  let ?K = "fst ` set (bindings (this rt))"
  let ?S = "symbol ` set (resolutionStack (this rt))"
  have k: "symbol tok \<in> ?K" using assms(1) by (metis map_of_eq_None_iff option.distinct(1))
  have s: "symbol tok \<notin> ?S" using assms(2) by (auto simp: list_ex_iff)
  have "?K - (?S \<union> {symbol tok}) \<subset> ?K - ?S" using k s by auto
  then have "card (?K - (?S \<union> {symbol tok})) < card (?K - ?S)"
    by (intro psubset_card_mono) auto
  then show ?thesis by (simp add: pending_def push_def Un_commute)
qed

lemma resolve_dom_all: "All resolve_createInstance_resolveDeps_dom"
proof (relation "inv_image (less_than <*lex*> less_than <*lex*> less_than)
    (\<lambda>x. case x of
        Inl (rt, tok) \<Rightarrow> (pending rt, 0::nat, 0::nat)
      | Inr (Inl (rt, tok, ctor)) \<Rightarrow> (pending rt, 2, 0)
      | Inr (Inr (rt, tok, ds)) \<Rightarrow> (pending rt, 1, length ds))", goal_cases)
  case 1
  then show ?case by (intro wf_inv_image wf_lex_prod wf_less_than)
next
  case (2 rt tok b)
  then show ?case by (simp add: pending_push)
next
  case (3 rt tok ctor x2 x21 x22)
  then show ?case by simp
next
  case (4 rt tok ds)
  then show ?case by simp
next
  case (5 rt tok depToken ds)
  then show ?case by simp
next
  case (6 rt tok depToken ds x y b)
  then have "bindings (this y) = bindings (this rt) \<and>
      resolutionStack (this y) = resolutionStack (this rt)"
    using frame_dom(1)[of rt depToken] by (metis snd_conv)
  then show ?case by (simp add: pending_def)
qed

termination resolve
  by (rule resolve_dom_all)

declare resolve.simps [simp del] createInstance.simps [simp del]

lemmas resolve_frame = frame_dom [OF resolve_dom_all [THEN spec]]

section \<open>The resolution engine with ambient context (src/unnamed/part_004, container/context.ts)\<close>

text \<open>
  The second revision of Container.ts constructs with \<^verbatim>\<open>new ctor()\<close> and lets the class
  fetch its dependencies with \<^verbatim>\<open>get(token)\<close>, which resolves against the module-level
  \<^verbatim>\<open>activeContainer\<close> of context.ts. Its state is the containers in existence (each
  named by a value of the finite type \<open>'c\<close>), the active one, and the objects in
  existence. A constructor runs its \<^verbatim>\<open>get\<close> calls in order and then its own code.
\<close>

record 'c world =
  containers :: "'c \<Rightarrow> container"
  activeContainer :: "'c option"
  heap :: "inst list"

text \<open>\<^verbatim>\<open>setContainer\<close> and \<^verbatim>\<open>getContainer\<close> of context.ts.\<close>

definition setContainer :: "'c \<Rightarrow> 'c world \<Rightarrow> 'c world" where
  "setContainer c w = w\<lparr>activeContainer := Some c\<rparr>"

definition getContainer :: "'c world \<Rightarrow> error + 'c" where
  "getContainer w = (case activeContainer w of None \<Rightarrow> Inl NoActiveContainerError | Some c \<Rightarrow> Inr c)"

text \<open>
  An update of one container of the world; \<open>previous\<close> is
  \<^verbatim>\<open>try { previousContainer = getContainer() } catch { }\<close>, \<open>restore\<close> is
  \<^verbatim>\<open>if (previousContainer) setContainer(previousContainer)\<close>, and the other three are the
  push, the pop and the cache write on the container \<^verbatim>\<open>this\<close>.
\<close>

definition on_container :: "'c \<Rightarrow> (container \<Rightarrow> container) \<Rightarrow> 'c world \<Rightarrow> 'c world" where
  "on_container c f w = w\<lparr>containers := (containers w)(c := f (containers w c))\<rparr>"

definition restore :: "'c option \<Rightarrow> 'c world \<Rightarrow> 'c world" where
  "restore previousContainer w =
     (case previousContainer of None \<Rightarrow> w | Some p \<Rightarrow> setContainer p w)"

definition previous :: "'c world \<Rightarrow> 'c option" where
  "previous w = (case getContainer w of Inl e \<Rightarrow> None | Inr p \<Rightarrow> Some p)"

definition push_ctx :: "'c \<Rightarrow> token \<Rightarrow> 'c world \<Rightarrow> 'c world" where
  "push_ctx c tok = on_container c (\<lambda>k. k\<lparr>resolutionStack := resolutionStack k @ [tok]\<rparr>)"

definition pop_ctx :: "'c \<Rightarrow> 'c world \<Rightarrow> 'c world" where
  "pop_ctx c = on_container c (\<lambda>k. k\<lparr>resolutionStack := butlast (resolutionStack k)\<rparr>)"

definition cache_ctx :: "'c \<Rightarrow> symbol \<Rightarrow> inst \<Rightarrow> 'c world \<Rightarrow> 'c world" where
  "cache_ctx c s v = on_container c (\<lambda>k. k\<lparr>singletons := AList.update s v (singletons k)\<rparr>)"

text \<open>
  \<^verbatim>\<open>resolve\<close> and \<^verbatim>\<open>createInstance\<close> of this revision, \<^verbatim>\<open>new ctor()\<close> running the
  remaining \<^verbatim>\<open>get\<close> calls of the constructor and then its own code, and \<^verbatim>\<open>get\<close> of
  context.ts. An error thrown by a \<^verbatim>\<open>get\<close> leaves the constructor as it is, an
  \<^verbatim>\<open>Error\<close> with its message, and \<^verbatim>\<open>createInstance\<close> wraps it.
\<close>

function resolve_ctx :: "'c::finite world \<Rightarrow> 'c \<Rightarrow> token \<Rightarrow> (error + inst) \<times> 'c world"
  and createInstance_ctx :: "'c world \<Rightarrow> token \<Rightarrow> class_decl \<Rightarrow> (error + inst) \<times> 'c world"
  and new_ctx :: "'c world \<Rightarrow> class_decl \<Rightarrow> token list \<Rightarrow> (thrown + inst) \<times> 'c world"
  and get :: "'c world \<Rightarrow> token \<Rightarrow> (error + inst) \<times> 'c world"
where
  "resolve_ctx w c tok =
     (case map_of (bindings (containers w c)) (symbol tok) of
        None \<Rightarrow> (Inl (DependencyNotFoundError tok), w)
      | Some b \<Rightarrow>
          if list_ex (\<lambda>t. symbol t = symbol tok) (resolutionStack (containers w c))
          then (Inl (CircularDependencyError (resolutionStack (containers w c) @ [tok])), w)
          else if lifecycle b = Singleton \<and> has (singletons (containers w c)) (symbol tok)
          then (Inr (the (map_of (singletons (containers w c)) (symbol tok))), w)
          else
            (case createInstance_ctx (push_ctx c tok (setContainer c w)) tok (implementation b) of
               (Inr v, w') \<Rightarrow>
                 (Inr v,
                  restore (previous w)
                    (pop_ctx c (if lifecycle b = Singleton then cache_ctx c (symbol tok) v w' else w')))
             | (Inl e, w') \<Rightarrow> (Inl e, restore (previous w) (pop_ctx c w'))))"
| "createInstance_ctx w tok ctor =
     (case new_ctx w ctor (gets ctor) of
        (Inr v, w') \<Rightarrow> (Inr v, w')
      | (Inl x, w') \<Rightarrow>
          (Inl (InvalidConstructorError tok (''Failed to instantiate: '' @ caught_message x)), w'))"
| "new_ctx w ctor [] =
     (case body ctor [] (heap w) of
        Returns \<Rightarrow>
          (Inr (Obj (next_ref (heap w)) (cid ctor)),
           w\<lparr>heap := heap w @ [Obj (next_ref (heap w)) (cid ctor)]\<rparr>)
      | ReturnsObject obj \<Rightarrow>
          (Inr obj, if obj \<in> set (heap w) then w else w\<lparr>heap := heap w @ [obj]\<rparr>)
      | Throws x \<Rightarrow> (Inl x, w))"
| "new_ctx w ctor (t # ts) =
     (case get w t of
        (Inl e, w') \<Rightarrow> (Inl (ErrorObj (message e)), w')
      | (Inr v, w') \<Rightarrow> new_ctx w' ctor ts)"
| "get w tok =
     (case getContainer w of
        Inl e \<Rightarrow> (Inl e, w)
      | Inr c \<Rightarrow> resolve_ctx w c tok)"
  by pat_completeness auto


lemma containers_setContainer [simp]: "containers (setContainer c w) = containers w"
  by (simp add: setContainer_def)

lemma containers_restore [simp]: "containers (restore p w) = containers w"
  by (simp add: restore_def split: option.split)

lemma containers_on_container [simp]:
  "containers (on_container c f w) = (containers w)(c := f (containers w c))"
  by (simp add: on_container_def)

lemma frame_ctx_dom:
  "resolve_ctx_createInstance_ctx_new_ctx_get_dom (Inl (Inl (w, c, tok))) \<Longrightarrow>
     bindings (containers (snd (resolve_ctx w c tok)) k) = bindings (containers w k) \<and>
     resolutionStack (containers (snd (resolve_ctx w c tok)) k) = resolutionStack (containers w k)"
  "resolve_ctx_createInstance_ctx_new_ctx_get_dom (Inl (Inr (w2, tok2, ctor))) \<Longrightarrow>
     bindings (containers (snd (createInstance_ctx w2 tok2 ctor)) k) = bindings (containers w2 k) \<and>
     resolutionStack (containers (snd (createInstance_ctx w2 tok2 ctor)) k) = resolutionStack (containers w2 k)"
  "resolve_ctx_createInstance_ctx_new_ctx_get_dom (Inr (Inl (w3, ctor3, ts))) \<Longrightarrow>
     bindings (containers (snd (new_ctx w3 ctor3 ts)) k) = bindings (containers w3 k) \<and>
     resolutionStack (containers (snd (new_ctx w3 ctor3 ts)) k) = resolutionStack (containers w3 k)"
  "resolve_ctx_createInstance_ctx_new_ctx_get_dom (Inr (Inr (w4, tok4))) \<Longrightarrow>
     bindings (containers (snd (get w4 tok4)) k) = bindings (containers w4 k) \<and>
     resolutionStack (containers (snd (get w4 tok4)) k) = resolutionStack (containers w4 k)"
proof (induct rule: resolve_ctx_createInstance_ctx_new_ctx_get.pinduct)
  case (1 w c tok)
  show ?case
  proof (cases "map_of (bindings (containers w c)) (symbol tok)")
    case None
    then show ?thesis by (simp add: resolve_ctx.psimps[OF "1.hyps"(1)])
  next
    case (Some b)
    show ?thesis
    proof (cases "\<not> list_ex (\<lambda>t. symbol t = symbol tok) (resolutionStack (containers w c)) \<and>
        \<not> (lifecycle b = Singleton \<and> has (singletons (containers w c)) (symbol tok))")
      case False
      then show ?thesis using Some by (auto simp: resolve_ctx.psimps[OF "1.hyps"(1)])
    next
      case True
      obtain r w' where eq:
        "createInstance_ctx (push_ctx c tok (setContainer c w)) tok (implementation b) = (r, w')"
        by (cases "createInstance_ctx (push_ctx c tok (setContainer c w)) tok (implementation b)")
      from "1.hyps"(2)[OF Some] True eq
      have "bindings (containers w' k) = bindings (containers (push_ctx c tok (setContainer c w)) k) \<and>
        resolutionStack (containers w' k) =
          resolutionStack (containers (push_ctx c tok (setContainer c w)) k)"
        by simp
      then show ?thesis using Some True eq
        by (cases r) (auto simp: resolve_ctx.psimps[OF "1.hyps"(1)] push_ctx_def pop_ctx_def cache_ctx_def)
    qed
  qed
next
  case (2 w tok ctor)
  then show ?case
    by (auto simp: createInstance_ctx.psimps split: prod.splits sum.splits)
next
  case (3 w ctor)
  then show ?case
    by (auto simp: new_ctx.psimps split: ctor_outcome.splits)
next
  case (4 w ctor t ts)
  then show ?case
    by (auto simp: new_ctx.psimps split: prod.splits sum.splits)
next
  case (5 w tok)
  then show ?case
    by (auto simp: get.psimps split: sum.splits)
qed

definition pending_ctx :: "'c::finite world \<Rightarrow> nat" where
  "pending_ctx w =
     (\<Sum>c\<in>UNIV. card (fst ` set (bindings (containers w c)) -
                     symbol ` set (resolutionStack (containers w c))))"

lemma pending_ctx_push:
  assumes "map_of (bindings (containers w c)) (symbol tok) = Some b"
    and "\<not> list_ex (\<lambda>t. symbol t = symbol tok) (resolutionStack (containers w c))"
  shows "pending_ctx (push_ctx c tok (setContainer c w)) < pending_ctx w"
proof -
  let ?K = "fst ` set (bindings (containers w c))"
  let ?S = "symbol ` set (resolutionStack (containers w c))"
  have k: "symbol tok \<in> ?K" using assms(1) by (metis map_of_eq_None_iff option.distinct(1))
  have s: "symbol tok \<notin> ?S" using assms(2) by (auto simp: list_ex_iff)
  have "?K - (?S \<union> {symbol tok}) \<subset> ?K - ?S" using k s by auto
  then have less: "card (?K - (?S \<union> {symbol tok})) < card (?K - ?S)"
    by (intro psubset_card_mono) auto
  show ?thesis
    unfolding pending_ctx_def
    by (rule sum_strict_mono_ex1) (use less in \<open>auto simp: push_ctx_def Un_commute intro!: bexI[of _ c]\<close>)
qed

lemma resolve_ctx_dom_all: "All resolve_ctx_createInstance_ctx_new_ctx_get_dom"
proof (relation "inv_image (less_than <*lex*> less_than <*lex*> less_than)
    (\<lambda>x. case x of
        Inl (Inl (w, c, tok)) \<Rightarrow> (pending_ctx w, 0::nat, 0::nat)
      | Inl (Inr (w, tok, ctor)) \<Rightarrow> (pending_ctx w, 3, 0)
      | Inr (Inl (w, ctor, ts)) \<Rightarrow> (pending_ctx w, 2, length ts)
      | Inr (Inr (w, tok)) \<Rightarrow> (pending_ctx w, 1, 0))", goal_cases)
  case 1
  then show ?case by (intro wf_inv_image wf_lex_prod wf_less_than)
next
  case (2 w c tok b)
  then show ?case by (simp add: pending_ctx_push)
next
  case (3 w tok ctor)
  then show ?case by simp
next
  case (4 w ctor t ts)
  then show ?case by simp
next
  case (5 w ctor t ts x y b)
  then have "\<And>k. bindings (containers y k) = bindings (containers w k) \<and>
      resolutionStack (containers y k) = resolutionStack (containers w k)"
    using frame_ctx_dom(4)[of w t] by (metis snd_conv)
  then show ?case by (simp add: pending_ctx_def)
next
  case (6 w tok c)
  then show ?case by simp
qed

termination resolve_ctx
  by (rule resolve_ctx_dom_all)

declare resolve_ctx.simps [simp del] createInstance_ctx.simps [simp del] get.simps [simp del]

lemmas resolve_ctx_frame = frame_ctx_dom [OF resolve_ctx_dom_all [THEN spec]]

section \<open>Callers, and predicates on states and errors\<close>

text \<open>
  A client's calls on one container, and the state they leave. What a call returns or
  throws is dropped here, as by a caller that catches it; a \<^verbatim>\<open>register\<close> that throws
  changes nothing.
\<close>

datatype call = Register token implementation | Resolve token | Clear | Reset

fun perform :: "call \<Rightarrow> runtime \<Rightarrow> runtime" where
  "perform (Register tok impl) rt =
     (case register (this rt) tok impl of Inl e \<Rightarrow> rt | Inr c \<Rightarrow> rt\<lparr>this := c\<rparr>)"
| "perform (Resolve tok) rt = snd (resolve rt tok)"
| "perform Clear rt = rt\<lparr>this := clear (this rt)\<rparr>"
| "perform Reset rt = rt\<lparr>this := reset (this rt)\<rparr>"

fun run :: "call list \<Rightarrow> runtime \<Rightarrow> runtime" where
  "run [] rt = rt"
| "run (c # cs) rt = run cs (perform c rt)"

fun keeps_cache :: "call \<Rightarrow> bool" where
  "keeps_cache Clear = False"
| "keeps_cache Reset = False"
| "keeps_cache c = True"

text \<open>Every cached instance is an object of the heap.\<close>

definition heap_ok :: "runtime \<Rightarrow> bool" where
  "heap_ok rt = list_all (\<lambda>(k, u). u \<in> set (objects rt)) (singletons (this rt))"

text \<open>The lifecycle of the binding of a token, if it has one.\<close>

definition lifecycle_of :: "container \<Rightarrow> token \<Rightarrow> lifecycle option" where
  "lifecycle_of c tok = map_option lifecycle (map_of (bindings c) (symbol tok))"

text \<open>
  Whether a call of \<^verbatim>\<open>resolve\<close> gets past its three checks (the token is bound, it
  is not in flight, and no cached singleton is returned) and so reaches the construction.
\<close>

definition constructs :: "'c world \<Rightarrow> 'c \<Rightarrow> token \<Rightarrow> bool" where
  "constructs w c tok =
     (case map_of (bindings (containers w c)) (symbol tok) of
        None \<Rightarrow> False
      | Some b \<Rightarrow>
          \<not> list_ex (\<lambda>t. symbol t = symbol tok) (resolutionStack (containers w c)) \<and>
          \<not> (lifecycle b = Singleton \<and> has (singletons (containers w c)) (symbol tok)))"

text \<open>
  The first \<^verbatim>\<open>get\<close> calls of a constructor, in order, up to the first that throws:
  the error, if there is one, and the state they leave.
\<close>

fun gets_run :: "'c::finite world \<Rightarrow> token list \<Rightarrow> error option \<times> 'c world" where
  "gets_run w [] = (None, w)"
| "gets_run w (t # ts) =
     (case get w t of
        (Inl e, w') \<Rightarrow> (Some e, w')
      | (Inr v, w') \<Rightarrow> gets_run w' ts)"

text \<open>The errors that \<^verbatim>\<open>resolve\<close> throws, and those that \<^verbatim>\<open>register\<close> throws.\<close>

fun thrown_by_resolve :: "error \<Rightarrow> bool" where
  "thrown_by_resolve (DependencyNotFoundError t) = True"
| "thrown_by_resolve (CircularDependencyError chain) = True"
| "thrown_by_resolve (InvalidConstructorError t m) = True"
| "thrown_by_resolve e = False"

fun thrown_by_register :: "error \<Rightarrow> bool" where
  "thrown_by_register (InvalidConstructorError t m) = True"
| "thrown_by_register (NotInjectableError n) = True"
| "thrown_by_register e = False"

section \<open>The example programs (examples/basic-usage.ts, examples/testing-pattern.ts, README)\<close>

abbreviation Logger :: token where "Logger \<equiv> createToken 0 ''Logger''"
abbreviation Database :: token where "Database \<equiv> createToken 1 ''Database''"
abbreviation UserService :: token where "UserService \<equiv> createToken 2 ''UserService''"
abbreviation ServiceA :: token where "ServiceA \<equiv> createToken 3 ''ServiceA''"
abbreviation ServiceB :: token where "ServiceB \<equiv> createToken 4 ''ServiceB''"
abbreviation EmailService :: token where "EmailService \<equiv> createToken 5 ''EmailService''"

abbreviation ConsoleLogger :: class_decl where
  "ConsoleLogger \<equiv> \<lparr>cid = 0, cname = ''ConsoleLogger'', injectable = True,
     lifecycle_meta = Some Singleton, inject_tokens = None, gets = [], body = (\<lambda>args objs. Returns)\<rparr>"

abbreviation PostgresDatabase :: class_decl where
  "PostgresDatabase \<equiv> \<lparr>cid = 1, cname = ''PostgresDatabase'', injectable = True,
     lifecycle_meta = Some Singleton, inject_tokens = Some [Tok Logger], gets = [],
     body = (\<lambda>args objs. Returns)\<rparr>"

abbreviation UserServiceImpl :: class_decl where
  "UserServiceImpl \<equiv> \<lparr>cid = 2, cname = ''UserServiceImpl'', injectable = True,
     lifecycle_meta = Some Transient, inject_tokens = Some [Tok Logger, Tok Database], gets = [],
     body = (\<lambda>args objs. Returns)\<rparr>"

abbreviation ServiceAImpl :: class_decl where
  "ServiceAImpl \<equiv> \<lparr>cid = 3, cname = ''ServiceAImpl'', injectable = True,
     lifecycle_meta = Some Singleton, inject_tokens = Some [Tok ServiceB], gets = [],
     body = (\<lambda>args objs. Returns)\<rparr>"

abbreviation ServiceBImpl :: class_decl where
  "ServiceBImpl \<equiv> \<lparr>cid = 4, cname = ''ServiceBImpl'', injectable = True,
     lifecycle_meta = Some Singleton, inject_tokens = Some [Tok ServiceA], gets = [],
     body = (\<lambda>args objs. Returns)\<rparr>"

abbreviation SmtpEmailService :: class_decl where
  "SmtpEmailService \<equiv> \<lparr>cid = 5, cname = ''SmtpEmailService'', injectable = True,
     lifecycle_meta = Some Singleton, inject_tokens = None, gets = [Logger],
     body = (\<lambda>args objs. Returns)\<rparr>"

text \<open>A container after the given registrations, none of which fails.\<close>

fun registered :: "(token \<times> class_decl) list \<Rightarrow> container \<Rightarrow> container" where
  "registered [] c = c"
| "registered ((tok, cls) # rs) c =
     (case register c tok (Fn cls) of Inr c' \<Rightarrow> registered rs c' | Inl e \<Rightarrow> c)"

declare registered.simps [simp del]

abbreviation demo :: runtime where
  "demo \<equiv> \<lparr>this = registered [(Logger, ConsoleLogger), (Database, PostgresDatabase),
       (UserService, UserServiceImpl)] new_container, objects = []\<rparr>"

abbreviation cyclic :: runtime where
  "cyclic \<equiv> \<lparr>this = registered [(ServiceA, ServiceAImpl), (ServiceB, ServiceBImpl)] new_container,
      objects = []\<rparr>"

text \<open>
  Two containers, with a given active one or none. In \<open>demo_ctx\<close> the first container
  has the registrations of the example and the second has none; in \<open>partial_ctx\<close> the
  logger that \<^verbatim>\<open>SmtpEmailService\<close> fetches is not registered.
\<close>

abbreviation demo_ctx :: "bool option \<Rightarrow> bool world" where
  "demo_ctx active \<equiv> \<lparr>containers = (\<lambda>k. if k then registered [(Logger, ConsoleLogger),
                                    (EmailService, SmtpEmailService)] new_container
                                  else new_container),
      activeContainer = active, heap = []\<rparr>"

abbreviation partial_ctx :: "bool option \<Rightarrow> bool world" where
  "partial_ctx active \<equiv> \<lparr>containers = (\<lambda>k. if k then registered [(EmailService, SmtpEmailService)]
                                       new_container
                                     else new_container),
      activeContainer = active, heap = []\<rparr>"



text \<open>A new container and an empty heap; and the example with the database left out.\<close>

abbreviation fresh :: runtime where
  "fresh \<equiv> \<lparr>this = new_container, objects = []\<rparr>"

abbreviation incomplete :: runtime where
  "incomplete \<equiv> \<lparr>this = registered [(Logger, ConsoleLogger), (UserService, UserServiceImpl)]
      new_container, objects = []\<rparr>"

text \<open>
  A class for ServiceA that wants a logger first, a class without dependencies, and the
  cycle of the README with the logger registered.
\<close>

abbreviation ServiceAImpl2 :: class_decl where
  "ServiceAImpl2 \<equiv> \<lparr>cid = 8, cname = ''ServiceAImpl2'', injectable = True,
     lifecycle_meta = Some Singleton, inject_tokens = Some [Tok Logger, Tok ServiceB], gets = [],
     body = (\<lambda>args objs. Returns)\<rparr>"

abbreviation Standalone :: class_decl where
  "Standalone \<equiv> \<lparr>cid = 9, cname = ''Standalone'', injectable = True,
     lifecycle_meta = Some Singleton, inject_tokens = None, gets = [], body = (\<lambda>args objs. Returns)\<rparr>"

abbreviation cyclic_logged :: runtime where
  "cyclic_logged \<equiv> \<lparr>this = registered [(Logger, ConsoleLogger), (ServiceA, ServiceAImpl2),
      (ServiceB, ServiceBImpl)] new_container, objects = []\<rparr>"



text \<open>The defining equations that evaluate the two engines on a given state.\<close>

lemmas engine_defs = createToken_def toString_def isInjectable_def getLifecycle_def
  getInjectTokens_def new_container_def has_def register_def registered.simps clear_def reset_def
  push_def pop_def cache_def next_ref_def new_def resolve.simps createInstance.simps
  setContainer_def getContainer_def on_container_def restore_def previous_def push_ctx_def
  pop_ctx_def cache_ctx_def resolve_ctx.simps createInstance_ctx.simps get.simps

section \<open>Facts about the engine with constructor injection\<close>

lemma next_ref_above: "obj \<in> set objs \<Longrightarrow> ref obj < next_ref objs"
  by (induction objs) (auto simp: next_ref_def)

lemma next_ref_fresh: "Obj (next_ref objs) c \<notin> set objs"
  using next_ref_above[of "Obj (next_ref objs) c" objs] by auto

lemma new_objects: "new ctor args rt = (r, rt') \<Longrightarrow> set (objects rt) \<subseteq> set (objects rt')"
  by (auto simp: new_def split: ctor_outcome.splits if_splits)

lemma new_result:
  "new ctor args rt = (Inr v, rt') \<Longrightarrow> v \<in> set (objects rt') \<and> this rt' = this rt"
  by (auto simp: new_def split: ctor_outcome.splits if_splits)

lemma new_objects_snd: "set (objects rt) \<subseteq> set (objects (snd (new ctor args rt)))"
  using new_objects[of ctor args rt] by (cases "new ctor args rt") simp

lemma resolve_objects:
  "set (objects rt) \<subseteq> set (objects (snd (resolve rt tok)))"
  "set (objects rt2) \<subseteq> set (objects (snd (createInstance rt2 tok2 ctor)))"
  "set (objects rt3) \<subseteq> set (objects (snd (resolveDeps rt3 tok3 ds)))"
proof (induct rt tok and rt2 tok2 ctor and rt3 tok3 ds rule: resolve_createInstance_resolveDeps.induct)
  case (1 rt tok)
  show ?case
  proof (cases "map_of (bindings (this rt)) (symbol tok)")
    case None
    then show ?thesis by (simp add: resolve.simps)
  next
    case (Some b)
    show ?thesis
    proof (cases "\<not> list_ex (\<lambda>t. symbol t = symbol tok) (resolutionStack (this rt)) \<and>
        \<not> (lifecycle b = Singleton \<and> has (singletons (this rt)) (symbol tok))")
      case False
      then show ?thesis using Some by (auto simp: resolve.simps)
    next
      case True
      obtain r rt' where eq: "createInstance (push tok rt) tok (implementation b) = (r, rt')"
        by (cases "createInstance (push tok rt) tok (implementation b)")
      from 1(1)[OF Some] True eq have "set (objects rt) \<subseteq> set (objects rt')"
        by (simp add: push_def)
      with Some True eq show ?thesis
        by (cases r) (auto simp: resolve.simps pop_def cache_def)
    qed
  qed
next
  case (2 rt tok ctor)
  show ?case
  proof (cases "getInjectTokens ctor")
    case None
    then show ?thesis using new_objects_snd[of rt ctor "[]"]
      by (auto simp: createInstance.simps split: prod.splits sum.splits)
  next
    case (Some ds)
    show ?thesis
    proof (cases ds)
      case Nil
      with Some show ?thesis using new_objects_snd[of rt ctor "[]"]
        by (auto simp: createInstance.simps split: prod.splits sum.splits)
    next
      case (Cons d ds')
      obtain r rt1 where eq: "resolveDeps rt tok (d # ds') = (r, rt1)"
        by (cases "resolveDeps rt tok (d # ds')")
      from 2[OF Some Cons] eq have sub: "set (objects rt) \<subseteq> set (objects rt1)" by simp
      show ?thesis
      proof (cases r)
        case (Inl e)
        with Some Cons eq sub show ?thesis by (simp add: createInstance.simps)
      next
        case (Inr vs)
        with Some Cons eq sub new_objects_snd[of rt1 ctor vs] show ?thesis
          by (auto simp: createInstance.simps split: prod.splits sum.splits)
      qed
    qed
  qed
next
  case (3 rt tok)
  then show ?case by simp
next
  case (4 rt tok ds)
  then show ?case by (auto split: prod.splits sum.splits)
next
  case (5 rt tok ds)
  then show ?case by simp
next
  case (6 rt tok depToken ds)
  obtain r rt1 where eq: "resolve rt depToken = (r, rt1)" by (cases "resolve rt depToken")
  show ?case
  proof (cases "has (bindings (this rt)) (symbol depToken)")
    case False
    then show ?thesis by simp
  next
    case True
    with 6(1) eq have a: "set (objects rt) \<subseteq> set (objects rt1)" by simp
    show ?thesis
    proof (cases r)
      case (Inl e)
      with True eq a show ?thesis by simp
    next
      case (Inr v)
      with 6(2)[OF _ eq[symmetric]] True
      have "set (objects rt1) \<subseteq> set (objects (snd (resolveDeps rt1 tok ds)))" by simp
      with True eq a Inr show ?thesis by (auto split: prod.splits sum.splits)
    qed
  qed
qed

lemma createInstance_result:
  assumes "createInstance rt tok ctor = (Inr v, rt')"
  shows "v \<in> set (objects rt')"
  using assms
  by (auto simp: createInstance.simps dest!: new_result
      split: option.splits list.splits prod.splits sum.splits)

lemma new_singletons: "new ctor args rt = (r, rt') \<Longrightarrow> singletons (this rt') = singletons (this rt)"
  by (auto simp: new_def split: ctor_outcome.splits if_splits)

text \<open>An entry of the cache survives every resolution.\<close>

lemma resolve_cache_kept:
  "map_of (singletons (this rt)) k = Some u \<Longrightarrow>
     map_of (singletons (this (snd (resolve rt tok)))) k = Some u"
  "map_of (singletons (this rt2)) k = Some u \<Longrightarrow>
     map_of (singletons (this (snd (createInstance rt2 tok2 ctor)))) k = Some u"
  "map_of (singletons (this rt3)) k = Some u \<Longrightarrow>
     map_of (singletons (this (snd (resolveDeps rt3 tok3 ds)))) k = Some u"
proof (induct rt tok and rt2 tok2 ctor and rt3 tok3 ds rule: resolve_createInstance_resolveDeps.induct)
  case (1 rt tok)
  then show ?case
    by (auto simp: resolve.simps push_def pop_def cache_def has_def update_conv'
        split: option.splits prod.splits sum.splits)
next
  case (2 rt tok ctor)
  then show ?case
    by (auto simp: createInstance.simps dest!: new_singletons
        split: option.splits list.splits prod.splits sum.splits)
next
  case (3 rt tok)
  then show ?case by simp
next
  case (4 rt tok ds)
  then show ?case by (auto split: prod.splits sum.splits)
next
  case (5 rt tok ds)
  then show ?case by simp
next
  case (6 rt tok depToken ds)
  then show ?case
    by (fastforce split: prod.splits sum.splits)
qed

text \<open>A resolution does not touch the cache entries of the tokens in flight.\<close>

lemma resolve_cache_in_flight:
  "k \<in> symbol ` set (resolutionStack (this rt)) \<Longrightarrow>
     map_of (singletons (this (snd (resolve rt tok)))) k = map_of (singletons (this rt)) k"
  "k \<in> symbol ` set (resolutionStack (this rt2)) \<Longrightarrow>
     map_of (singletons (this (snd (createInstance rt2 tok2 ctor)))) k = map_of (singletons (this rt2)) k"
  "k \<in> symbol ` set (resolutionStack (this rt3)) \<Longrightarrow>
     map_of (singletons (this (snd (resolveDeps rt3 tok3 ds)))) k = map_of (singletons (this rt3)) k"
proof (induct rt tok and rt2 tok2 ctor and rt3 tok3 ds rule: resolve_createInstance_resolveDeps.induct)
  case (1 rt tok)
  then show ?case
    by (auto simp: resolve.simps push_def pop_def cache_def has_def update_conv' list_ex_iff
        split: option.splits prod.splits sum.splits)
next
  case (2 rt tok ctor)
  then show ?case
    by (auto simp: createInstance.simps dest!: new_singletons
        split: option.splits list.splits prod.splits sum.splits)
next
  case (3 rt tok)
  then show ?case by simp
next
  case (4 rt tok ds)
  then show ?case by (auto split: prod.splits sum.splits)
next
  case (6 rt tok depToken ds)
  obtain r rt1 where eq: "resolve rt depToken = (r, rt1)" by (cases "resolve rt depToken")
  have st: "resolutionStack (this rt1) = resolutionStack (this rt)"
    using resolve_frame(1)[of rt depToken] eq by simp
  show ?case
  proof (cases "has (bindings (this rt)) (symbol depToken)")
    case False
    then show ?thesis by simp
  next
    case True
    with 6(1)[OF _ "6.prems"] eq
    have a: "map_of (singletons (this rt1)) k = map_of (singletons (this rt)) k" by simp
    show ?thesis
    proof (cases r)
      case (Inl e)
      with True eq a show ?thesis by simp
    next
      case (Inr v)
      with 6(2)[OF _ eq[symmetric] Inr] True "6.prems" st
      have "map_of (singletons (this (snd (resolveDeps rt1 tok ds)))) k = map_of (singletons (this rt1)) k"
        by simp
      with True eq a Inr show ?thesis by (auto split: prod.splits sum.splits)
    qed
  qed
qed simp

lemma resolve_Inr_cases:
  assumes "resolve rt tok = (Inr v, rt1)"
  obtains b where "map_of (bindings (this rt)) (symbol tok) = Some b"
      and "\<not> list_ex (\<lambda>t. symbol t = symbol tok) (resolutionStack (this rt))"
      and "lifecycle b = Singleton" and "map_of (singletons (this rt)) (symbol tok) = Some v"
      and "rt1 = rt"
    | b rt' where "map_of (bindings (this rt)) (symbol tok) = Some b"
      and "\<not> list_ex (\<lambda>t. symbol t = symbol tok) (resolutionStack (this rt))"
      and "\<not> (lifecycle b = Singleton \<and> has (singletons (this rt)) (symbol tok))"
      and "createInstance (push tok rt) tok (implementation b) = (Inr v, rt')"
      and "rt1 = pop (if lifecycle b = Singleton then cache (symbol tok) v rt' else rt')"
  using assms
  by (auto simp: resolve.simps has_def split: option.splits if_splits prod.splits sum.splits)

lemma set_update_subset: "set (AList.update k v al) \<subseteq> insert (k, v) (set al)"
  by (induction al) auto

lemma heap_ok_cache: "heap_ok rt \<Longrightarrow> v \<in> set (objects rt) \<Longrightarrow> heap_ok (cache k v rt)"
  using set_update_subset[of k v "singletons (this rt)"]
  by (auto simp: heap_ok_def cache_def list_all_iff)

lemma heap_ok_mono:
  "heap_ok rt \<Longrightarrow> singletons (this rt') = singletons (this rt) \<Longrightarrow>
     set (objects rt) \<subseteq> set (objects rt') \<Longrightarrow> heap_ok rt'"
  by (fastforce simp: heap_ok_def list_all_iff)

lemma heap_ok_new: "heap_ok rt \<Longrightarrow> new ctor args rt = (r, rt') \<Longrightarrow> heap_ok rt'"
  using heap_ok_mono[of rt rt'] new_singletons[of ctor args rt r rt'] new_objects[of ctor args rt r rt']
  by simp

lemma resolve_heap_ok:
  "heap_ok rt \<Longrightarrow> heap_ok (snd (resolve rt tok))"
  "heap_ok rt2 \<Longrightarrow> heap_ok (snd (createInstance rt2 tok2 ctor))"
  "heap_ok rt3 \<Longrightarrow> heap_ok (snd (resolveDeps rt3 tok3 ds))"
proof (induct rt tok and rt2 tok2 ctor and rt3 tok3 ds rule: resolve_createInstance_resolveDeps.induct)
  case (1 rt tok)
  show ?case
  proof (cases "resolve rt tok")
    case (Pair r rt1)
    show ?thesis
    proof (cases "map_of (bindings (this rt)) (symbol tok)")
      case None
      then show ?thesis using "1.prems" by (simp add: resolve.simps)
    next
      case (Some b)
      show ?thesis
      proof (cases "\<not> list_ex (\<lambda>t. symbol t = symbol tok) (resolutionStack (this rt)) \<and>
          \<not> (lifecycle b = Singleton \<and> has (singletons (this rt)) (symbol tok))")
        case False
        then show ?thesis using Some "1.prems" by (auto simp: resolve.simps)
      next
        case True
        obtain r' rt' where eq: "createInstance (push tok rt) tok (implementation b) = (r', rt')"
          by (cases "createInstance (push tok rt) tok (implementation b)")
        have "heap_ok (push tok rt)" using "1.prems" by (simp add: heap_ok_def push_def)
        with 1(1)[OF Some] True eq have ok: "heap_ok rt'" by simp
        have pop_ok: "\<And>s. heap_ok s \<Longrightarrow> heap_ok (pop s)" by (simp add: heap_ok_def pop_def)
        show ?thesis
        proof (cases r')
          case (Inl e)
          with Some True eq ok pop_ok show ?thesis by (auto simp: resolve.simps)
        next
          case (Inr v)
          with eq createInstance_result have "v \<in> set (objects rt')" by fastforce
          with Some True eq ok pop_ok Inr heap_ok_cache show ?thesis
            by (auto simp: resolve.simps)
        qed
      qed
    qed
  qed
next
  case (2 rt tok ctor)
  then show ?case
    by (auto simp: createInstance.simps dest: heap_ok_new
        split: option.splits list.splits prod.splits sum.splits)
next
  case (3 rt tok)
  then show ?case by simp
next
  case (4 rt tok ds)
  then show ?case by (auto split: prod.splits sum.splits)
next
  case (5 rt tok ds)
  then show ?case by simp
next
  case (6 rt tok depToken ds)
  then show ?case
    by (fastforce split: prod.splits sum.splits)
qed


lemma resolve_constructs:
  assumes "resolve rt tok = (Inr v, rt1)"
    and "map_of (singletons (this rt)) (symbol tok) = None \<or>
         (\<exists>b. map_of (bindings (this rt)) (symbol tok) = Some b \<and> lifecycle b = Transient)"
  shows "\<exists>b. map_of (bindings (this rt)) (symbol tok) = Some b \<and>
           fst (createInstance (push tok rt) tok (implementation b)) = Inr v \<and>
           v \<in> set (objects rt1)"
  using assms(1)
proof (cases rule: resolve_Inr_cases)
  case (1 b)
  with assms(2) show ?thesis by auto
next
  case (2 b rt')
  with createInstance_result[OF 2(4)] show ?thesis by (simp add: pop_def cache_def)
qed

text \<open>
  A constructor that always returns normally gives an object of its class that did not
  exist before.
\<close>

lemma new_plain:
  assumes "new ctor args s = (Inr v, s')" and "\<forall>args objs. body ctor args objs = Returns"
  shows "v \<notin> set (objects s) \<and> class_of v = cid ctor"
  using assms next_ref_fresh[of "objects s" "cid ctor"] by (auto simp: new_def)

lemma createInstance_plain:
  assumes "createInstance rt tok ctor = (Inr v, rt')"
    and "\<forall>args objs. body ctor args objs = Returns"
  shows "v \<notin> set (objects rt) \<and> class_of v = cid ctor"
proof (cases "getInjectTokens ctor")
  case None
  with assms(1) obtain s' where "new ctor [] rt = (Inr v, s')"
    by (auto simp: createInstance.simps split: prod.splits sum.splits)
  from new_plain[OF this assms(2)] show ?thesis .
next
  case (Some ds)
  show ?thesis
  proof (cases ds)
    case Nil
    with Some assms(1) obtain s' where "new ctor [] rt = (Inr v, s')"
      by (auto simp: createInstance.simps split: prod.splits sum.splits)
    from new_plain[OF this assms(2)] show ?thesis .
  next
    case (Cons d ds')
    obtain r rt1 where eq: "resolveDeps rt tok (d # ds') = (r, rt1)"
      by (cases "resolveDeps rt tok (d # ds')")
    have sub: "set (objects rt) \<subseteq> set (objects rt1)"
      using resolve_objects(3)[of rt tok "d # ds'"] eq by simp
    from Some Cons assms(1) eq obtain vs s' where "new ctor vs rt1 = (Inr v, s')"
      by (auto simp: createInstance.simps split: prod.splits sum.splits)
    from new_plain[OF this assms(2)] sub show ?thesis by auto
  qed
qed

lemma resolve_plain:
  assumes "resolve rt tok = (Inr v, rt1)"
    and "map_of (bindings (this rt)) (symbol tok) = Some b"
    and "\<not> (lifecycle b = Singleton \<and> has (singletons (this rt)) (symbol tok))"
    and "\<forall>args objs. body (implementation b) args objs = Returns"
  shows "v \<notin> set (objects rt) \<and> class_of v = cid (implementation b)"
  using assms(1)
proof (cases rule: resolve_Inr_cases)
  case (1 b')
  with assms(2,3) show ?thesis by (simp add: has_def)
next
  case (2 b' rt')
  with assms(2) have "createInstance (push tok rt) tok (implementation b) = (Inr v, rt')" by simp
  from createInstance_plain[OF this assms(4)] show ?thesis by (simp add: push_def)
qed

lemma resolve_singleton_cached:
  assumes "resolve rt tok = (Inr v, rt1)"
    and "map_of (bindings (this rt)) (symbol tok) = Some b" and "lifecycle b = Singleton"
  shows "map_of (singletons (this rt1)) (symbol tok) = Some v"
  using assms(1)
proof (cases rule: resolve_Inr_cases)
  case (1 b)
  then show ?thesis by simp
next
  case (2 b' rt')
  with assms(2,3) show ?thesis by (simp add: pop_def cache_def update_conv')
qed

lemma register_singletons: "register c tok impl = Inr c' \<Longrightarrow> singletons c' = singletons c"
  by (auto simp: register_def Let_def split: implementation.splits if_splits)



lemma perform_cache_kept:
  "keeps_cache c \<Longrightarrow> map_of (singletons (this rt)) k = Some u \<Longrightarrow>
     map_of (singletons (this (perform c rt))) k = Some u"
  by (cases c) (auto simp: resolve_cache_kept dest: register_singletons split: sum.splits)

lemma run_cache_kept:
  "list_all keeps_cache cs \<Longrightarrow> map_of (singletons (this rt)) k = Some u \<Longrightarrow>
     map_of (singletons (this (run cs rt))) k = Some u"
  by (induction cs arbitrary: rt) (auto simp: perform_cache_kept)

lemma perform_heap_ok: "heap_ok rt \<Longrightarrow> heap_ok (perform c rt)"
proof (cases c)
  case (Register tok impl)
  assume "heap_ok rt"
  then show ?thesis using Register
    by (auto simp: heap_ok_def dest: register_singletons split: sum.splits)
next
  case (Resolve tok)
  assume "heap_ok rt"
  then show ?thesis using Resolve by (simp add: resolve_heap_ok)
qed (simp_all add: heap_ok_def clear_def reset_def)

lemma run_heap_ok: "heap_ok rt \<Longrightarrow> heap_ok (run cs rt)"
  by (induction cs arbitrary: rt) (auto simp: perform_heap_ok)



lemma pop_push [simp]: "pop (push tok rt) = rt"
  by (simp add: pop_def push_def)

lemma this_push [simp]:
  "bindings (this (push tok rt)) = bindings (this rt)"
  "singletons (this (push tok rt)) = singletons (this rt)"
  "resolutionStack (this (push tok rt)) = resolutionStack (this rt) @ [tok]"
  by (simp_all add: push_def)

lemma resolveDeps_append:
  "resolveDeps s t (xs @ ys) =
     (case resolveDeps s t xs of
        (Inl e, s') \<Rightarrow> (Inl e, s')
      | (Inr vs, s') \<Rightarrow>
          (case resolveDeps s' t ys of
             (Inl e, s'') \<Rightarrow> (Inl e, s'')
           | (Inr ws, s'') \<Rightarrow> (Inr (vs @ ws), s'')))"
proof (induction xs arbitrary: s)
  case Nil
  then show ?case by (auto split: prod.splits sum.splits)
next
  case (Cons d xs)
  show ?case
  proof (cases d)
    case Hole
    with Cons show ?thesis by (auto split: prod.splits sum.splits)
  next
    case Undef
    then show ?thesis by simp
  next
    case (Tok x)
    with Cons show ?thesis by (auto split: prod.splits sum.splits)
  qed
qed

lemma createInstance_deps:
  assumes "getInjectTokens ctor = Some (pre @ Tok B # post)"
  shows "createInstance s t ctor =
     (case resolveDeps s t (pre @ Tok B # post) of
        (Inl e, s') \<Rightarrow> (Inl e, s')
      | (Inr resolvedDeps, s') \<Rightarrow>
          (case new ctor resolvedDeps s' of
             (Inr v, s'') \<Rightarrow> (Inr v, s'')
           | (Inl x, s'') \<Rightarrow>
               (Inl (InvalidConstructorError t (''Failed to instantiate: '' @ caught_message x)),
                s'')))"
proof -
  obtain d ds where "pre @ Tok B # post = d # ds" by (cases pre) auto
  with assms show ?thesis by (simp add: createInstance.simps)
qed

lemma in_flight_fails:
  assumes "symbol A \<in> symbol ` set (resolutionStack (this s))"
    and "has (bindings (this s)) (symbol A)"
  shows "isl (fst (resolveDeps s t (pre @ Tok A # post)))"
proof (cases "resolveDeps s t pre")
  case (Pair r s')
  show ?thesis
  proof (cases r)
    case (Inl e)
    with Pair show ?thesis by (simp add: resolveDeps_append)
  next
    case (Inr vs)
    have fr: "bindings (this s') = bindings (this s)"
      "resolutionStack (this s') = resolutionStack (this s)"
      using resolve_frame(3)[of s t pre] Pair by simp_all
    from assms fr obtain b where "map_of (bindings (this s')) (symbol A) = Some b"
      by (auto simp: has_def)
    moreover have "list_ex (\<lambda>x. symbol x = symbol A) (resolutionStack (this s'))"
      using assms(1) fr by (auto simp: list_ex_iff)
    ultimately have "isl (fst (resolve s' A))" by (simp add: resolve.simps)
    moreover have "has (bindings (this s')) (symbol A)" using assms(2) fr by simp
    ultimately show ?thesis using Pair Inr
      by (auto simp: resolveDeps_append split: prod.splits sum.splits)
  qed
qed

text \<open>
  While a token A is in flight, no resolution caches an instance for a token whose class
  declares a dependency on A.
\<close>

lemma dependent_not_cached:
  "symbol A \<in> symbol ` set (resolutionStack (this rt)) \<Longrightarrow>
   has (bindings (this rt)) (symbol A) \<Longrightarrow>
   map_of (bindings (this rt)) (symbol B) = Some bB \<Longrightarrow>
   getInjectTokens (implementation bB) = Some (preB @ Tok A # postB) \<Longrightarrow>
     map_of (singletons (this (snd (resolve rt tok)))) (symbol B) =
       map_of (singletons (this rt)) (symbol B)"
  "symbol A \<in> symbol ` set (resolutionStack (this rt2)) \<Longrightarrow>
   has (bindings (this rt2)) (symbol A) \<Longrightarrow>
   map_of (bindings (this rt2)) (symbol B) = Some bB \<Longrightarrow>
   getInjectTokens (implementation bB) = Some (preB @ Tok A # postB) \<Longrightarrow>
     map_of (singletons (this (snd (createInstance rt2 tok2 ctor)))) (symbol B) =
       map_of (singletons (this rt2)) (symbol B)"
  "symbol A \<in> symbol ` set (resolutionStack (this rt3)) \<Longrightarrow>
   has (bindings (this rt3)) (symbol A) \<Longrightarrow>
   map_of (bindings (this rt3)) (symbol B) = Some bB \<Longrightarrow>
   getInjectTokens (implementation bB) = Some (preB @ Tok A # postB) \<Longrightarrow>
     map_of (singletons (this (snd (resolveDeps rt3 tok3 ds)))) (symbol B) =
       map_of (singletons (this rt3)) (symbol B)"
proof (induct rt tok and rt2 tok2 ctor and rt3 tok3 ds rule: resolve_createInstance_resolveDeps.induct)
  case (1 rt tok)
  show ?case
  proof (cases "map_of (bindings (this rt)) (symbol tok)")
    case None
    then show ?thesis by (simp add: resolve.simps)
  next
    case (Some b)
    show ?thesis
    proof (cases "\<not> list_ex (\<lambda>t. symbol t = symbol tok) (resolutionStack (this rt)) \<and>
        \<not> (lifecycle b = Singleton \<and> has (singletons (this rt)) (symbol tok))")
      case False
      then show ?thesis using Some by (auto simp: resolve.simps)
    next
      case True
      obtain r rt' where eq: "createInstance (push tok rt) tok (implementation b) = (r, rt')"
        by (cases "createInstance (push tok rt) tok (implementation b)")
      have fl: "symbol A \<in> symbol ` set (resolutionStack (this (push tok rt)))"
        using "1.prems"(1) by (simp add: push_def)
      from 1(1)[OF Some _ _ fl] True "1.prems" eq
      have keep: "map_of (singletons (this rt')) (symbol B) = map_of (singletons (this rt)) (symbol B)"
        by (simp add: push_def)
      show ?thesis
      proof (cases r)
        case (Inl e)
        with Some True eq keep show ?thesis by (auto simp: resolve.simps pop_def)
      next
        case (Inr v)
        have "symbol tok \<noteq> symbol B"
        proof
          assume same: "symbol tok = symbol B"
          with Some "1.prems"(3) have "b = bB" by simp
          with "1.prems"(4) have
            "isl (fst (createInstance (push tok rt) tok (implementation b)))"
            using in_flight_fails[OF fl, of tok preB postB] "1.prems"(2)
            by (auto simp: createInstance_deps push_def split: prod.splits sum.splits)
          with eq Inr show False by simp
        qed
        with Some True eq keep Inr show ?thesis
          by (auto simp: resolve.simps pop_def cache_def update_conv')
      qed
    qed
  qed
next
  case (2 rt tok ctor)
  then show ?case
    by (auto simp: createInstance.simps dest!: new_singletons
        split: option.splits list.splits prod.splits sum.splits)
next
  case (3 rt tok)
  then show ?case by simp
next
  case (4 rt tok ds)
  then show ?case by (auto split: prod.splits sum.splits)
next
  case (5 rt tok ds)
  then show ?case by simp
next
  case (6 rt tok depToken ds)
  obtain r rt1 where eq: "resolve rt depToken = (r, rt1)" by (cases "resolve rt depToken")
  have fr: "resolutionStack (this rt1) = resolutionStack (this rt)"
    "bindings (this rt1) = bindings (this rt)"
    using resolve_frame(1)[of rt depToken] eq by simp_all
  show ?case
  proof (cases "has (bindings (this rt)) (symbol depToken)")
    case False
    then show ?thesis by simp
  next
    case True
    with 6(1)[OF _ "6.prems"] eq
    have a: "map_of (singletons (this rt1)) (symbol B) = map_of (singletons (this rt)) (symbol B)"
      by simp
    show ?thesis
    proof (cases r)
      case (Inl e)
      with True eq a show ?thesis by simp
    next
      case (Inr v)
      with 6(2)[OF _ eq[symmetric] Inr] True "6.prems" fr
      have "map_of (singletons (this (snd (resolveDeps rt1 tok ds)))) (symbol B) =
          map_of (singletons (this rt1)) (symbol B)"
        by simp
      with True eq a Inr show ?thesis by (auto split: prod.splits sum.splits)
    qed
  qed
qed

lemma missing_dependency:
  "fst (resolveDeps s A pre) = Inr vs \<Longrightarrow> \<not> has (bindings (this s)) (symbol B) \<Longrightarrow>
     fst (resolveDeps s A (pre @ Tok B # post)) = Inl (DependencyNotFoundError B)"
proof (induction pre arbitrary: s vs)
  case Nil
  then show ?case by simp
next
  case (Cons d pre)
  show ?case
  proof (cases d)
    case Hole
    with Cons.prems(1) obtain ws where "fst (resolveDeps s A pre) = Inr ws"
      by (auto split: prod.splits sum.splits)
    from Cons.IH[OF this Cons.prems(2)] Hole show ?thesis
      by (auto split: prod.splits sum.splits)
  next
    case Undef
    with Cons.prems(1) show ?thesis by simp
  next
    case (Tok t)
    obtain r s1 where eq: "resolve s t = (r, s1)" by (cases "resolve s t")
    have bs: "bindings (this s1) = bindings (this s)"
      using resolve_frame(1)[of s t] eq by simp
    from Cons.prems(1) Tok eq obtain v ws where r: "r = Inr v"
      and h: "has (bindings (this s)) (symbol t)" and ws: "fst (resolveDeps s1 A pre) = Inr ws"
      by (auto split: prod.splits sum.splits if_splits)
    from Cons.IH[OF ws] Cons.prems(2) bs
    have "fst (resolveDeps s1 A (pre @ Tok B # post)) = Inl (DependencyNotFoundError B)" by simp
    with Tok eq r h show ?thesis by (auto split: prod.splits sum.splits)
  qed
qed

lemma missing_dependency_resolve:
  assumes a: "map_of (bindings (this rt)) (symbol A) = Some bA"
    and fa: "\<not> list_ex (\<lambda>t. symbol t = symbol A) (resolutionStack (this rt))"
    and ca: "\<not> (lifecycle bA = Singleton \<and> has (singletons (this rt)) (symbol A))"
    and da: "getInjectTokens (implementation bA) = Some (pre @ Tok B # post)"
    and pre: "fst (resolveDeps (push A rt) A pre) = Inr vs"
    and nb: "\<not> isRegistered (this rt) B"
  shows "fst (resolve rt A) = Inl (DependencyNotFoundError B)"
proof -
  have "fst (resolveDeps (push A rt) A (pre @ Tok B # post)) = Inl (DependencyNotFoundError B)"
    using missing_dependency[OF pre] nb by (simp add: isRegistered_def)
  moreover obtain d ds where "pre @ Tok B # post = d # ds" by (cases pre) auto
  ultimately have "fst (createInstance (push A rt) A (implementation bA)) =
      Inl (DependencyNotFoundError B)"
    using da by (auto simp: createInstance.simps split: prod.splits sum.splits)
  then show ?thesis
    using a fa ca by (auto simp: resolve.simps split: prod.splits sum.splits)
qed

lemma resolve_unregistered:
  "\<not> isRegistered (this rt) tok \<Longrightarrow> resolve rt tok = (Inl (DependencyNotFoundError tok), rt)"
  by (simp add: resolve.simps isRegistered_def has_def)

lemma resolve_error_kinds:
  "fst (resolve rt tok) = Inl e \<Longrightarrow> thrown_by_resolve e"
  "fst (createInstance rt2 tok2 ctor) = Inl e \<Longrightarrow> thrown_by_resolve e"
  "fst (resolveDeps rt3 tok3 ds) = Inl e \<Longrightarrow> thrown_by_resolve e"
proof (induct rt tok and rt2 tok2 ctor and rt3 tok3 ds rule: resolve_createInstance_resolveDeps.induct)
  case (1 rt tok)
  then show ?case
    by (auto simp: resolve.simps split: option.splits if_splits prod.splits sum.splits)
next
  case (2 rt tok ctor)
  then show ?case
    by (auto simp: createInstance.simps split: option.splits list.splits prod.splits sum.splits)
next
  case (3 rt tok)
  then show ?case by simp
next
  case (4 rt tok ds)
  then show ?case by (auto split: prod.splits sum.splits)
next
  case (5 rt tok ds)
  then show ?case by auto
next
  case (6 rt tok depToken ds)
  then show ?case
    by (auto split: prod.splits sum.splits if_splits)
qed

lemma resolve_ctx_error_kinds:
  "fst (resolve_ctx w c tok) = Inl e \<Longrightarrow> thrown_by_resolve e"
  by (auto simp: resolve_ctx.simps createInstance_ctx.simps
      split: option.splits if_splits prod.splits sum.splits)

lemma register_error_kinds: "register c tok impl = Inl e \<Longrightarrow> thrown_by_register e"
  by (auto simp: register_def Let_def split: implementation.splits if_splits)

lemma message_shows_symbol: "sublist (toString (symbol t)) (message (DependencyNotFoundError t))"
proof -
  have "message (DependencyNotFoundError t) =
      (''Dependency not found: '' @ description t @ '' ('') @ toString (symbol t) @ '')''"
    by simp
  then show ?thesis unfolding sublist_def by blast
qed

lemma resolve_pair: "fst (resolve rt tok) = Inr v \<Longrightarrow> resolve rt tok = (Inr v, snd (resolve rt tok))"
  by (cases "resolve rt tok") simp

lemma lifecycle_ofD:
  "lifecycle_of c tok = Some l \<Longrightarrow> \<exists>b. map_of (bindings c) (symbol tok) = Some b \<and> lifecycle b = l"
  by (auto simp: lifecycle_of_def)

lemma heap_ok_reachable: "heap_ok (run cs \<lparr>this = new_container, objects = objs\<rparr>)"
  by (rule run_heap_ok) (simp add: heap_ok_def new_container_def)

section \<open>Facts about the engine with ambient context\<close>

lemma activeContainer_on_container [simp]:
  "activeContainer (on_container c f w) = activeContainer w"
  by (simp add: on_container_def)

lemma resolve_ctx_skips: "\<not> constructs w c tok \<Longrightarrow> snd (resolve_ctx w c tok) = w"
  by (auto simp: constructs_def resolve_ctx.simps split: option.splits)

lemma resolve_ctx_active:
  "activeContainer w = Some s \<Longrightarrow> activeContainer (snd (resolve_ctx w c tok)) = Some s"
  by (auto simp: resolve_ctx.simps previous_def getContainer_def restore_def setContainer_def
      pop_ctx_def cache_ctx_def split: option.splits prod.splits sum.splits)

lemma get_active:
  "activeContainer w = Some s \<Longrightarrow>
     get w t = resolve_ctx w s t \<and> activeContainer (snd (get w t)) = Some s"
  by (simp add: get.simps getContainer_def resolve_ctx_active)

lemma new_ctx_active:
  "activeContainer w = Some s \<Longrightarrow> activeContainer (snd (new_ctx w ctor ts)) = Some s"
proof (induction ts arbitrary: w)
  case Nil
  then show ?case by (auto split: ctor_outcome.split)
next
  case (Cons t ts)
  obtain r w' where eq: "get w t = (r, w')" by (cases "get w t")
  with get_active[OF Cons.prems, of t] have "activeContainer w' = Some s" by simp
  with Cons.IH eq show ?case by (cases r) simp_all
qed

lemma createInstance_ctx_active:
  "activeContainer w = Some s \<Longrightarrow> activeContainer (snd (createInstance_ctx w tok ctor)) = Some s"
  using new_ctx_active[of w s ctor "gets ctor"]
  by (auto simp: createInstance_ctx.simps split: prod.splits sum.splits)

lemma resolve_ctx_installs:
  assumes "activeContainer w = None" and "constructs w c tok"
  shows "activeContainer (snd (resolve_ctx w c tok)) = Some c"
proof -
  from assms(2) obtain b where b: "map_of (bindings (containers w c)) (symbol tok) = Some b"
    and nc: "\<not> list_ex (\<lambda>t. symbol t = symbol tok) (resolutionStack (containers w c))"
    and ns: "\<not> (lifecycle b = Singleton \<and> has (singletons (containers w c)) (symbol tok))"
    by (auto simp: constructs_def split: option.splits)
  let ?w1 = "push_ctx c tok (setContainer c w)"
  have "activeContainer ?w1 = Some c" by (simp add: push_ctx_def setContainer_def)
  from createInstance_ctx_active[OF this, of tok "implementation b"]
  have act: "activeContainer (snd (createInstance_ctx ?w1 tok (implementation b))) = Some c" .
  obtain r w' where eq: "createInstance_ctx ?w1 tok (implementation b) = (r, w')"
    by (cases "createInstance_ctx ?w1 tok (implementation b)")
  with act have "activeContainer w' = Some c" by simp
  then show ?thesis using b nc ns eq assms(1)
    by (cases r) (auto simp: resolve_ctx.simps previous_def getContainer_def restore_def
        pop_ctx_def cache_ctx_def)
qed

lemma gets_run_active:
  "activeContainer w = Some s \<Longrightarrow> activeContainer (snd (gets_run w ts)) = Some s"
proof (induction ts arbitrary: w)
  case Nil
  then show ?case by simp
next
  case (Cons t ts)
  obtain r w' where eq: "get w t = (r, w')" by (cases "get w t")
  with get_active[OF Cons.prems, of t] have "activeContainer w' = Some s" by simp
  with Cons.IH eq show ?case by (cases r) simp_all
qed

lemma gets_run_bindings:
  "bindings (containers (snd (gets_run w ts)) k) = bindings (containers w k)"
proof (induction ts arbitrary: w)
  case Nil
  then show ?case by simp
next
  case (Cons t ts)
  obtain r w' where eq: "get w t = (r, w')" by (cases "get w t")
  with resolve_ctx_frame(4)[of w t k] have "bindings (containers w' k) = bindings (containers w k)"
    by simp
  with Cons.IH[of w'] eq show ?case by (cases r) simp_all
qed

lemma new_ctx_append:
  "new_ctx w ctor (pre @ ts) =
     (case gets_run w pre of
        (Some e, w') \<Rightarrow> (Inl (ErrorObj (message e)), w')
      | (None, w') \<Rightarrow> new_ctx w' ctor ts)"
proof (induction pre arbitrary: w)
  case Nil
  then show ?case by simp
next
  case (Cons t pre)
  then show ?case by (auto split: prod.splits sum.splits)
qed

text \<open>
  A \<^verbatim>\<open>get\<close> that throws inside a constructor ends the construction, and \<^verbatim>\<open>resolve\<close>
  throws InvalidConstructor for its own token, with the message of that error in it.
\<close>

lemma resolve_ctx_wraps:
  assumes "constructs w c A"
    and "map_of (bindings (containers w c)) (symbol A) = Some bA"
    and "gets (implementation bA) = pre @ B # post"
    and "fst (gets_run (push_ctx c A (setContainer c w)) pre) = None"
    and "fst (get (snd (gets_run (push_ctx c A (setContainer c w)) pre)) B) = Inl e"
  shows "fst (resolve_ctx w c A) =
     Inl (InvalidConstructorError A (''Failed to instantiate: '' @ message e))"
proof -
  let ?w1 = "push_ctx c A (setContainer c w)"
  from assms(1,2) have nc: "\<not> list_ex (\<lambda>t. symbol t = symbol A) (resolutionStack (containers w c))"
    and ns: "\<not> (lifecycle bA = Singleton \<and> has (singletons (containers w c)) (symbol A))"
    by (auto simp: constructs_def)
  obtain w2 where g: "gets_run ?w1 pre = (None, w2)"
    using assms(4) by (cases "gets_run ?w1 pre") simp
  obtain w3 where f: "get w2 B = (Inl e, w3)"
    using assms(5) g by (cases "get w2 B") simp
  have "new_ctx ?w1 (implementation bA) (gets (implementation bA)) = (Inl (ErrorObj (message e)), w3)"
    using assms(3) g f by (simp add: new_ctx_append)
  then have "createInstance_ctx ?w1 A (implementation bA) =
      (Inl (InvalidConstructorError A (''Failed to instantiate: '' @ message e)), w3)"
    by (simp add: createInstance_ctx.simps)
  with assms(2) nc ns show ?thesis by (simp add: resolve_ctx.simps)
qed

lemma get_unregistered:
  assumes "\<not> isRegistered (containers w c) B"
  shows "fst (get (snd (gets_run (push_ctx c A (setContainer c w)) pre)) B) =
     Inl (DependencyNotFoundError B)"
proof -
  let ?w1 = "push_ctx c A (setContainer c w)"
  let ?w2 = "snd (gets_run ?w1 pre)"
  have "activeContainer ?w1 = Some c" by (simp add: push_ctx_def setContainer_def)
  then have act: "activeContainer ?w2 = Some c" by (rule gets_run_active)
  have "bindings (containers ?w2 c) = bindings (containers ?w1 c)" by (rule gets_run_bindings)
  also have "\<dots> = bindings (containers w c)" by (simp add: push_ctx_def)
  finally have "map_of (bindings (containers ?w2 c)) (symbol B) = None"
    using assms by (simp add: isRegistered_def has_def)
  with act show ?thesis by (simp add: get.simps getContainer_def resolve_ctx.simps)
qed

lemma resolve_ctx_unregistered:
  "\<not> isRegistered (containers w c) tok \<Longrightarrow>
     resolve_ctx w c tok = (Inl (DependencyNotFoundError tok), w)"
  by (simp add: resolve_ctx.simps isRegistered_def has_def)

section \<open>Re-registration\<close>




section \<open>Error messages\<close>

text \<open>
  C2 as stated fails: the message of DependencyNotFoundError ends with the string form
  of the token's symbol in parentheses. And in the revision with ambient context a
  \<^verbatim>\<open>get\<close> that fails inside a constructor is caught by \<^verbatim>\<open>createInstance\<close>, so the
  message of the InvalidConstructorError that \<^verbatim>\<open>resolve\<close> throws quotes that message,
  symbol and all.
\<close>

theorem C2_counterexample:
  "fst (resolve fresh Logger) = Inl (DependencyNotFoundError Logger) \<and>
   message (DependencyNotFoundError Logger) = ''Dependency not found: Logger (Symbol(Logger))'' \<and>
   toString (symbol Logger) = ''Symbol(Logger)'' \<and>
   sublist (toString (symbol Logger)) (message (DependencyNotFoundError Logger)) \<and>
   fst (resolve_ctx (partial_ctx None) True EmailService) =
     Inl (InvalidConstructorError EmailService
       ''Failed to instantiate: Dependency not found: Logger (Symbol(Logger))'') \<and>
   message (InvalidConstructorError EmailService
       ''Failed to instantiate: Dependency not found: Logger (Symbol(Logger))'') =
     ''Invalid constructor for EmailService: Failed to instantiate: Dependency not found: Logger (Symbol(Logger))''"
  using message_shows_symbol[of Logger]
  by (simp add: engine_defs)

text \<open>
  C2, amended: \<^verbatim>\<open>resolve\<close> (in both revisions) throws only DependencyNotFound,
  CircularDependency and InvalidConstructor, and \<^verbatim>\<open>register\<close> only InvalidConstructor and
  NotInjectable. The message of DependencyNotFound is the description followed by the
  string form of the symbol, \<^verbatim>\<open>Symbol(...)\<close>, in parentheses. The message of
  CircularDependency names its tokens by description only: chains with the same
  descriptions give the same message. The message of InvalidConstructor names its own
  token by description only and ends with the text of the cause, unchanged. In the
  revision with ambient context, when a \<^verbatim>\<open>get\<close> in the constructor of the class bound to
  a token A throws an error (the \<^verbatim>\<open>get\<close> calls before it returning), \<^verbatim>\<open>resolve(A)\<close>
  throws InvalidConstructor for A with the cause \<^verbatim>\<open>Failed to instantiate: \<close> followed
  by the message of that error; for a \<^verbatim>\<open>get\<close> of an unregistered token B that error is
  DependencyNotFound for B, and the message of the InvalidConstructor contains the string
  form of B's symbol. NotInjectable names the class.
\<close>

theorem C2_messages:
  "(fst (resolve rt tok) = Inl e \<longrightarrow> thrown_by_resolve e) \<and>
   (fst (resolve_ctx w c tokc) = Inl ec \<longrightarrow> thrown_by_resolve ec) \<and>
   (register k tokr impl = Inl er \<longrightarrow> thrown_by_register er) \<and>
   message (DependencyNotFoundError t) =
     ''Dependency not found: '' @ description t @ '' ('' @ toString (symbol t) @ '')'' \<and>
   sublist (toString (symbol t)) (message (DependencyNotFoundError t)) \<and>
   (map description chain = map description chain' \<longrightarrow>
      message (CircularDependencyError chain) = message (CircularDependencyError chain')) \<and>
   message (InvalidConstructorError t m) = ''Invalid constructor for '' @ description t @ '': '' @ m \<and>
   (constructs w c A \<and> map_of (bindings (containers w c)) (symbol A) = Some bA \<and>
    gets (implementation bA) = pre @ B # post \<and>
    fst (gets_run (push_ctx c A (setContainer c w)) pre) = None \<and>
    fst (get (snd (gets_run (push_ctx c A (setContainer c w)) pre)) B) = Inl ea \<longrightarrow>
      fst (resolve_ctx w c A) =
        Inl (InvalidConstructorError A (''Failed to instantiate: '' @ message ea))) \<and>
   (\<not> isRegistered (containers w c) B \<longrightarrow>
      fst (get (snd (gets_run (push_ctx c A (setContainer c w)) pre)) B) =
        Inl (DependencyNotFoundError B)) \<and>
   sublist (toString (symbol B))
     (message (InvalidConstructorError A
        (''Failed to instantiate: '' @ message (DependencyNotFoundError B)))) \<and>
   message (NotInjectableError n) =
     ''Class '' @ n @
     '' is not marked as injectable. Use @injectable(), @singleton(), or @transient() decorator.''"
proof -
  have "message (InvalidConstructorError A
        (''Failed to instantiate: '' @ message (DependencyNotFoundError B))) =
      (''Invalid constructor for '' @ description A @ '': Failed to instantiate: '' @
       ''Dependency not found: '' @ description B @ '' ('') @ toString (symbol B) @ '')''"
    by simp
  then have "sublist (toString (symbol B))
     (message (InvalidConstructorError A
        (''Failed to instantiate: '' @ message (DependencyNotFoundError B))))"
    unfolding sublist_def by blast
  then show ?thesis
    using resolve_error_kinds(1)[of rt tok e] resolve_ctx_error_kinds[of w c tokc ec]
      register_error_kinds[of k tokr impl er] message_shows_symbol[of t]
      resolve_ctx_wraps[of w c A bA pre B post ea] get_unregistered[of w c B A pre]
    by simp
qed

theorem C2_messages_witness:
  "fst (resolve cyclic ServiceA) = Inl (CircularDependencyError [ServiceA, ServiceB, ServiceA]) \<and>
   thrown_by_resolve (CircularDependencyError [ServiceA, ServiceB, ServiceA]) \<and>
   map description [ServiceA, ServiceB, ServiceA] =
     map description [createToken 8 ''ServiceA'', createToken 9 ''ServiceB'', ServiceA] \<and>
   message (CircularDependencyError [ServiceA, ServiceB, ServiceA]) =
     message (CircularDependencyError [createToken 8 ''ServiceA'', createToken 9 ''ServiceB'',
       ServiceA]) \<and>
   message (CircularDependencyError [ServiceA, ServiceB, ServiceA]) =
     ''Circular dependency detected: ServiceA -> ServiceB -> ServiceA'' \<and>
   register new_container Logger NotAFunction =
     Inl (InvalidConstructorError Logger ''Implementation must be a constructor function'') \<and>
   thrown_by_register
     (InvalidConstructorError Logger ''Implementation must be a constructor function'') \<and>
   constructs (partial_ctx None) True EmailService \<and>
   gets SmtpEmailService = [] @ Logger # [] \<and>
   fst (gets_run (push_ctx True EmailService (setContainer True (partial_ctx None))) []) = None \<and>
   \<not> isRegistered (containers (partial_ctx None) True) Logger \<and>
   fst (resolve_ctx (partial_ctx None) True EmailService) =
     Inl (InvalidConstructorError EmailService
       (''Failed to instantiate: '' @ message (DependencyNotFoundError Logger))) \<and>
   thrown_by_resolve (InvalidConstructorError EmailService
     (''Failed to instantiate: '' @ message (DependencyNotFoundError Logger)))"
proof -
  let ?bE = "\<lparr>implementation = SmtpEmailService, lifecycle = Singleton, token = EmailService\<rparr>"
  let ?w1 = "push_ctx True EmailService (setContainer True (partial_ctx None))"
  have a: "fst (resolve cyclic ServiceA) = Inl (CircularDependencyError [ServiceA, ServiceB, ServiceA])"
    by (simp add: engine_defs)
  have b: "map description [ServiceA, ServiceB, ServiceA] =
      map description [createToken 8 ''ServiceA'', createToken 9 ''ServiceB'', ServiceA]"
    by (simp add: engine_defs)
  have c: "register new_container Logger NotAFunction =
      Inl (InvalidConstructorError Logger ''Implementation must be a constructor function'')"
    by (simp add: register_def)
  have d: "message (CircularDependencyError [ServiceA, ServiceB, ServiceA]) =
      ''Circular dependency detected: ServiceA -> ServiceB -> ServiceA''"
    by (simp add: engine_defs)
  have f: "constructs (partial_ctx None) True EmailService"
    by (simp add: constructs_def engine_defs)
  have g: "map_of (bindings (containers (partial_ctx None) True)) (symbol EmailService) = Some ?bE"
    by (simp add: engine_defs)
  have h: "gets (implementation ?bE) = [] @ Logger # []" by simp
  have i: "fst (gets_run ?w1 []) = None" by simp
  have j: "\<not> isRegistered (containers (partial_ctx None) True) Logger"
    by (simp add: isRegistered_def engine_defs)
  note th = C2_messages [where rt = cyclic and tok = ServiceA
      and e = "CircularDependencyError [ServiceA, ServiceB, ServiceA]"
      and chain = "[ServiceA, ServiceB, ServiceA]"
      and chain' = "[createToken 8 ''ServiceA'', createToken 9 ''ServiceB'', ServiceA]"
      and k = new_container and tokr = Logger and impl = NotAFunction
      and er = "InvalidConstructorError Logger ''Implementation must be a constructor function''"
      and w = "partial_ctx None" and c = True and A = EmailService and bA = ?bE
      and tokc = EmailService
      and ec = "InvalidConstructorError EmailService
        (''Failed to instantiate: '' @ message (DependencyNotFoundError Logger))"
      and pre = "[]" and B = Logger and post = "[]" and ea = "DependencyNotFoundError Logger"]
  from th j have k: "fst (get (snd (gets_run ?w1 [])) Logger) = Inl (DependencyNotFoundError Logger)"
    by blast
  from th f g h i k have l: "fst (resolve_ctx (partial_ctx None) True EmailService) =
      Inl (InvalidConstructorError EmailService
        (''Failed to instantiate: '' @ message (DependencyNotFoundError Logger)))"
    by blast
  from th a b have m: "thrown_by_resolve (CircularDependencyError [ServiceA, ServiceB, ServiceA]) \<and>
      message (CircularDependencyError [ServiceA, ServiceB, ServiceA]) =
        message (CircularDependencyError [createToken 8 ''ServiceA'', createToken 9 ''ServiceB'',
          ServiceA])"
    by blast
  from th c have n: "thrown_by_register
      (InvalidConstructorError Logger ''Implementation must be a constructor function'')"
    by blast
  from th l have o: "thrown_by_resolve (InvalidConstructorError EmailService
      (''Failed to instantiate: '' @ message (DependencyNotFoundError Logger)))"
    by blast
  from a b c d f h i j l m n o show ?thesis by simp
qed

section \<open>Cycle detection\<close>

text \<open>
  C3 as stated fails where the cycle is not reached. First registry: ServiceB was
  registered with a class without dependencies and resolved, and then registered again;
  now the class of ServiceA declares ServiceB and the class of ServiceB declares ServiceA,
  and \<^verbatim>\<open>resolve(ServiceA)\<close> returns an object, built with the cached ServiceB. Second
  registry: the class of ServiceA declares a logger before ServiceB and no logger is
  registered; \<^verbatim>\<open>resolve(ServiceA)\<close> throws DependencyNotFound for the logger.
\<close>

theorem C3_counterexample:
  "map (\<lambda>(k, b). (description (token b), cname (implementation b), getInjectTokens (implementation b)))
     (bindings (this (run [Register ServiceB (Fn Standalone), Resolve ServiceB,
        Register ServiceB (Fn ServiceBImpl), Register ServiceA (Fn ServiceAImpl)] fresh))) =
     [(''ServiceB'', ''ServiceBImpl'', Some [Tok ServiceA]),
      (''ServiceA'', ''ServiceAImpl'', Some [Tok ServiceB])] \<and>
   fst (resolve (run [Register ServiceB (Fn Standalone), Resolve ServiceB,
        Register ServiceB (Fn ServiceBImpl), Register ServiceA (Fn ServiceAImpl)] fresh) ServiceA) =
     Inr (Obj 1 (cid ServiceAImpl)) \<and>
   map (\<lambda>(k, b). (description (token b), cname (implementation b), getInjectTokens (implementation b)))
     (bindings (this (run [Register ServiceA (Fn ServiceAImpl2),
        Register ServiceB (Fn ServiceBImpl)] fresh))) =
     [(''ServiceA'', ''ServiceAImpl2'', Some [Tok Logger, Tok ServiceB]),
      (''ServiceB'', ''ServiceBImpl'', Some [Tok ServiceA])] \<and>
   fst (resolve (run [Register ServiceA (Fn ServiceAImpl2),
        Register ServiceB (Fn ServiceBImpl)] fresh) ServiceA) =
     Inl (DependencyNotFoundError Logger)"
  by (simp add: engine_defs)

text \<open>
  C3, amended: let A and B be two distinct registered tokens, A's class declaring a
  dependency on B and B's class one on A, let the dependencies declared before these
  resolve, let the cache have no entry for A or B, and let no resolution be in flight.
  Then \<^verbatim>\<open>resolve(A)\<close> throws CircularDependency with the chain [A, B, A]; afterwards the
  in-flight path is empty and the cache has no entry for A or B. (With A and B exchanged
  this is the statement for \<^verbatim>\<open>resolve(B)\<close> and the chain [B, A, B].)
\<close>

theorem C3_cycle_detected:
  assumes a: "map_of (bindings (this rt)) (symbol A) = Some bA"
    and da: "getInjectTokens (implementation bA) = Some (preA @ Tok B # postA)"
    and b: "map_of (bindings (this rt)) (symbol B) = Some bB"
    and db: "getInjectTokens (implementation bB) = Some (preB @ Tok A # postB)"
    and ne: "symbol A \<noteq> symbol B"
    and top: "resolutionStack (this rt) = []"
    and ca: "\<not> has (singletons (this rt)) (symbol A)"
    and cb: "\<not> has (singletons (this rt)) (symbol B)"
    and hA: "fst (resolveDeps (push A rt) A preA) = Inr vs"
    and hB: "fst (resolveDeps (push B (snd (resolveDeps (push A rt) A preA))) B preB) = Inr ws"
  shows "fst (resolve rt A) = Inl (CircularDependencyError [A, B, A]) \<and>
    resolutionStack (this (snd (resolve rt A))) = [] \<and>
    \<not> has (singletons (this (snd (resolve rt A)))) (symbol A) \<and>
    \<not> has (singletons (this (snd (resolve rt A)))) (symbol B)"
proof -
  let ?e = "CircularDependencyError [A, B, A]"
  let ?s1 = "snd (resolveDeps (push A rt) A preA)"
  let ?s2 = "snd (resolveDeps (push B ?s1) B preB)"
  have flA: "symbol A \<in> symbol ` set (resolutionStack (this (push A rt)))" by simp
  have regA: "has (bindings (this (push A rt))) (symbol A)" using a by (simp add: has_def)
  have regB: "map_of (bindings (this (push A rt))) (symbol B) = Some bB" using b by simp
  \<comment> \<open>the state in which B is resolved\<close>
  have s1: "bindings (this ?s1) = bindings (this rt)" "resolutionStack (this ?s1) = [A]"
    using resolve_frame(3)[of "push A rt" A preA] top by simp_all
  have s1B: "\<not> has (singletons (this ?s1)) (symbol B)"
    using dependent_not_cached(3)[OF flA regA regB db, of A preA] cb by (simp add: has_def)
  \<comment> \<open>the state in which A is resolved again\<close>
  have s2: "bindings (this ?s2) = bindings (this rt)" "resolutionStack (this ?s2) = [A, B]"
    using resolve_frame(3)[of "push B ?s1" B preB] s1 by simp_all
  have 1: "fst (resolve ?s2 A) = Inl ?e"
    using a s2 by (simp add: resolve.simps)
  have 2: "fst (resolveDeps (push B ?s1) B (preB @ Tok A # postB)) = Inl ?e"
    using hB 1 a s2 by (auto simp: resolveDeps_append has_def split: prod.splits sum.splits)
  have 3: "fst (createInstance (push B ?s1) B (implementation bB)) = Inl ?e"
    using 2 by (auto simp: createInstance_deps[OF db] split: prod.splits sum.splits)
  have 4: "fst (resolve ?s1 B) = Inl ?e"
    using b s1 s1B ne 3 by (auto simp: resolve.simps split: prod.splits sum.splits)
  have 5: "fst (resolveDeps (push A rt) A (preA @ Tok B # postA)) = Inl ?e"
    using hA 4 b s1 by (auto simp: resolveDeps_append has_def split: prod.splits sum.splits)
  have 6: "fst (createInstance (push A rt) A (implementation bA)) = Inl ?e"
    using 5 by (auto simp: createInstance_deps[OF da] split: prod.splits sum.splits)
  have 7: "resolve rt A = (Inl ?e, pop (snd (createInstance (push A rt) A (implementation bA))))"
    using a top ca 6 by (auto simp: resolve.simps split: prod.splits sum.splits)
  have 8: "resolutionStack (this (snd (resolve rt A))) = []"
    using resolve_frame(1)[of rt A] top by simp
  have 9: "map_of (singletons (this (snd (createInstance (push A rt) A (implementation bA)))))
      (symbol A) = map_of (singletons (this rt)) (symbol A)"
    using resolve_cache_in_flight(2)[OF flA, of A "implementation bA"] by simp
  have 10: "map_of (singletons (this (snd (createInstance (push A rt) A (implementation bA)))))
      (symbol B) = map_of (singletons (this rt)) (symbol B)"
    using dependent_not_cached(2)[OF flA regA regB db, of A "implementation bA"] by simp
  from 7 8 9 10 ca cb show ?thesis by (simp add: has_def pop_def)
qed

theorem C3_cycle_detected_witness:
  "map_of (bindings (this cyclic_logged)) (symbol ServiceA) =
     Some \<lparr>implementation = ServiceAImpl2, lifecycle = Singleton, token = ServiceA\<rparr> \<and>
   getInjectTokens ServiceAImpl2 = Some [Tok Logger, Tok ServiceB] \<and>
   map_of (bindings (this cyclic_logged)) (symbol ServiceB) =
     Some \<lparr>implementation = ServiceBImpl, lifecycle = Singleton, token = ServiceB\<rparr> \<and>
   getInjectTokens ServiceBImpl = Some [Tok ServiceA] \<and>
   symbol ServiceA \<noteq> symbol ServiceB \<and> resolutionStack (this cyclic_logged) = [] \<and>
   singletons (this cyclic_logged) = [] \<and>
   fst (resolveDeps (push ServiceA cyclic_logged) ServiceA [Tok Logger]) = Inr [Some (Obj 0 0)] \<and>
   fst (resolve cyclic_logged ServiceA) =
     Inl (CircularDependencyError [ServiceA, ServiceB, ServiceA]) \<and>
   fst (resolve cyclic_logged ServiceB) =
     Inl (CircularDependencyError [ServiceB, ServiceA, ServiceB]) \<and>
   map fst (singletons (this (snd (resolve cyclic_logged ServiceA)))) = [symbol Logger]"
proof -
  let ?bA = "\<lparr>implementation = ServiceAImpl2, lifecycle = Singleton, token = ServiceA\<rparr>"
  let ?bB = "\<lparr>implementation = ServiceBImpl, lifecycle = Singleton, token = ServiceB\<rparr>"
  have a: "map_of (bindings (this cyclic_logged)) (symbol ServiceA) = Some ?bA"
    by (simp add: engine_defs)
  have da: "getInjectTokens (implementation ?bA) = Some ([Tok Logger] @ Tok ServiceB # [])"
    by (simp add: engine_defs)
  have b: "map_of (bindings (this cyclic_logged)) (symbol ServiceB) = Some ?bB"
    by (simp add: engine_defs)
  have db: "getInjectTokens (implementation ?bB) = Some ([] @ Tok ServiceA # [])"
    by (simp add: engine_defs)
  have ne: "symbol ServiceA \<noteq> symbol ServiceB" by (simp add: engine_defs)
  have top: "resolutionStack (this cyclic_logged) = []"
    by (simp add: engine_defs)
  have cs: "singletons (this cyclic_logged) = []"
    by (simp add: engine_defs)
  then have ca: "\<not> has (singletons (this cyclic_logged)) (symbol ServiceA)"
    and cb: "\<not> has (singletons (this cyclic_logged)) (symbol ServiceB)"
    by (simp_all add: has_def)
  have hA: "fst (resolveDeps (push ServiceA cyclic_logged) ServiceA [Tok Logger]) =
      Inr [Some (Obj 0 0)]"
    by (simp add: engine_defs)
  have hB: "fst (resolveDeps (push ServiceB (snd (resolveDeps (push ServiceA cyclic_logged)
      ServiceA [Tok Logger]))) ServiceB []) = Inr []"
    by simp
  have hB': "fst (resolveDeps (push ServiceB cyclic_logged) ServiceB []) = Inr []"
    by simp
  have hA': "fst (resolveDeps (push ServiceA (snd (resolveDeps (push ServiceB cyclic_logged)
      ServiceB []))) ServiceA [Tok Logger]) = Inr [Some (Obj 0 0)]"
    by (simp add: engine_defs)
  have c: "map fst (singletons (this (snd (resolve cyclic_logged ServiceA)))) = [symbol Logger]"
    by (simp add: engine_defs)
  from C3_cycle_detected [OF a da b db ne top ca cb hA hB]
    C3_cycle_detected [OF b db a da ne[symmetric] top cb ca hB' hA']
    a da b db ne top cs hA c
  show ?thesis by simp
qed

section \<open>The in-flight path\<close>

text \<open>
  C4: every call of \<^verbatim>\<open>resolve\<close>, returning or throwing, leaves the in-flight
  resolution path as it found it: the token it appended is removed again before a
  failure propagates. After a top-level call (one that starts with the empty path) the
  path is empty again, and the cycle check of a later call for any token \<open>tok'\<close> sees
  what it would have seen before. This holds for both revisions of the container; in the
  ambient-context revision for the path of every container.
\<close>

theorem C4_path_restored:
  "resolutionStack (this (snd (resolve rt tok))) = resolutionStack (this rt) \<and>
   (resolutionStack (this rt) = [] \<longrightarrow> resolutionStack (this (snd (resolve rt tok))) = []) \<and>
   list_ex (\<lambda>t. symbol t = symbol tok') (resolutionStack (this (snd (resolve rt tok)))) =
     list_ex (\<lambda>t. symbol t = symbol tok') (resolutionStack (this rt)) \<and>
   resolutionStack (containers (snd (resolve_ctx w c tok2)) k) = resolutionStack (containers w k) \<and>
   (resolutionStack (containers w c) = [] \<longrightarrow>
      resolutionStack (containers (snd (resolve_ctx w c tok2)) c) = [])"
  by (simp add: resolve_frame resolve_ctx_frame)

lemma partial_ctx_fails:
  "fst (resolve_ctx (partial_ctx None) True EmailService) =
     Inl (InvalidConstructorError EmailService
       ''Failed to instantiate: Dependency not found: Logger (Symbol(Logger))'')"
  by (simp add: engine_defs)

lemma cyclic_fails:
  "fst (resolve cyclic ServiceA) = Inl (CircularDependencyError [ServiceA, ServiceB, ServiceA])"
  by (simp add: engine_defs)

theorem C4_path_restored_witness:
  "resolutionStack (this cyclic) = [] \<and>
   fst (resolve cyclic ServiceA) = Inl (CircularDependencyError [ServiceA, ServiceB, ServiceA]) \<and>
   resolutionStack (this (snd (resolve cyclic ServiceA))) = [] \<and>
   resolutionStack (containers (partial_ctx None) True) = [] \<and>
   fst (resolve_ctx (partial_ctx None) True EmailService) =
     Inl (InvalidConstructorError EmailService
       ''Failed to instantiate: Dependency not found: Logger (Symbol(Logger))'') \<and>
   resolutionStack (containers (snd (resolve_ctx (partial_ctx None) True EmailService)) True) = []"
proof -
  have a: "resolutionStack (this cyclic) = []" by (simp add: engine_defs)
  have b: "resolutionStack (containers (partial_ctx None) True) = []" by (simp add: engine_defs)
  from C4_path_restored [of cyclic ServiceA ServiceA "partial_ctx None" True EmailService True] a b
  show ?thesis by (simp add: cyclic_fails partial_ctx_fails)
qed

section \<open>Lifecycles\<close>

text \<open>
  C5: if a token is bound as a singleton and \<^verbatim>\<open>resolve\<close> returns \<open>v\<close> for it, then after
  any further calls of \<^verbatim>\<open>register\<close> and \<^verbatim>\<open>resolve\<close> (no \<^verbatim>\<open>clear\<close>, no \<^verbatim>\<open>reset\<close>) a
  \<^verbatim>\<open>resolve\<close> of the token, still bound as a singleton, that returns, returns the same
  object \<open>v\<close> and changes nothing: it comes from the cache, where the first call left it.
  If the cache had no entry for the token, the first call ran the construction with the
  class bound to the token, and \<open>v\<close> is what that construction gave: for a class whose
  constructor always returns normally, an object of the class that did not exist before
  the call.
\<close>

theorem C5_singleton_identity:
  assumes "lifecycle_of (this rt) tok = Some Singleton"
    and "fst (resolve rt tok) = Inr v"
    and "list_all keeps_cache cs"
    and "lifecycle_of (this (run cs (snd (resolve rt tok)))) tok = Some Singleton"
    and "fst (resolve (run cs (snd (resolve rt tok))) tok) = Inr v'"
  shows "v' = v \<and> ref v' = ref v \<and>
    snd (resolve (run cs (snd (resolve rt tok))) tok) = run cs (snd (resolve rt tok)) \<and>
    map_of (singletons (this (snd (resolve rt tok)))) (symbol tok) = Some v \<and>
    (\<not> has (singletons (this rt)) (symbol tok) \<longrightarrow>
       (\<exists>b. map_of (bindings (this rt)) (symbol tok) = Some b \<and>
            fst (createInstance (push tok rt) tok (implementation b)) = Inr v \<and>
            ((\<forall>args objs. body (implementation b) args objs = Returns) \<longrightarrow>
               v \<notin> set (objects rt) \<and> class_of v = cid (implementation b))) \<and>
       v \<in> set (objects (snd (resolve rt tok))))"
proof -
  let ?rt1 = "snd (resolve rt tok)"
  from lifecycle_ofD[OF assms(1)] obtain b
    where b: "map_of (bindings (this rt)) (symbol tok) = Some b" "lifecycle b = Singleton" by blast
  from lifecycle_ofD[OF assms(4)] obtain b'
    where b': "map_of (bindings (this (run cs ?rt1))) (symbol tok) = Some b'" "lifecycle b' = Singleton"
    by blast
  note r1 = resolve_pair[OF assms(2)]
  note r2 = resolve_pair[OF assms(5)]
  have c1: "map_of (singletons (this ?rt1)) (symbol tok) = Some v"
    using resolve_singleton_cached[OF r1 b] .
  then have c: "map_of (singletons (this (run cs ?rt1))) (symbol tok) = Some v"
    using run_cache_kept[OF assms(3)] by simp
  have "v' = v \<and> snd (resolve (run cs ?rt1) tok) = run cs ?rt1"
    using r2
  proof (cases rule: resolve_Inr_cases)
    case (1 b)
    with c show ?thesis by simp
  next
    case (2 b'' rt')
    with c b' show ?thesis by (simp add: has_def)
  qed
  moreover have "\<not> has (singletons (this rt)) (symbol tok) \<longrightarrow>
      (\<exists>b. map_of (bindings (this rt)) (symbol tok) = Some b \<and>
           fst (createInstance (push tok rt) tok (implementation b)) = Inr v \<and>
           ((\<forall>args objs. body (implementation b) args objs = Returns) \<longrightarrow>
              v \<notin> set (objects rt) \<and> class_of v = cid (implementation b))) \<and>
      v \<in> set (objects ?rt1)"
    using resolve_constructs[OF r1] resolve_plain[OF r1 b(1)] b(1) by (auto simp: has_def)
  ultimately show ?thesis using c1 by simp
qed

theorem C5_singleton_identity_witness:
  "lifecycle_of (this demo) Logger = Some Singleton \<and>
   fst (resolve demo Logger) = Inr (Obj 0 0) \<and>
   list_all keeps_cache [Resolve UserService, Register Database (Fn PostgresDatabase)] \<and>
   lifecycle_of (this (run [Resolve UserService, Register Database (Fn PostgresDatabase)]
     (snd (resolve demo Logger)))) Logger = Some Singleton \<and>
   fst (resolve (run [Resolve UserService, Register Database (Fn PostgresDatabase)]
     (snd (resolve demo Logger))) Logger) = Inr (Obj 0 0) \<and>
   \<not> has (singletons (this demo)) (symbol Logger) \<and>
   map_of (bindings (this demo)) (symbol Logger) =
     Some \<lparr>implementation = ConsoleLogger, lifecycle = Singleton, token = Logger\<rparr> \<and>
   (\<forall>args objs. body ConsoleLogger args objs = Returns) \<and>
   Obj 0 0 \<notin> set (objects demo) \<and>
   Obj 0 0 \<in> set (objects (snd (resolve demo Logger)))"
proof -
  let ?cs = "[Resolve UserService, Register Database (Fn PostgresDatabase)]"
  have a: "lifecycle_of (this demo) Logger = Some Singleton"
    by (simp add: lifecycle_of_def engine_defs)
  have b: "fst (resolve demo Logger) = Inr (Obj 0 0)"
    by (simp add: engine_defs)
  have c: "list_all keeps_cache ?cs" by simp
  have d: "lifecycle_of (this (run ?cs (snd (resolve demo Logger)))) Logger = Some Singleton"
    by (simp add: lifecycle_of_def engine_defs)
  have e: "fst (resolve (run ?cs (snd (resolve demo Logger))) Logger) = Inr (Obj 0 0)"
    by (simp add: engine_defs)
  have f: "\<not> has (singletons (this demo)) (symbol Logger)"
    by (simp add: engine_defs)
  have h: "map_of (bindings (this demo)) (symbol Logger) =
      Some \<lparr>implementation = ConsoleLogger, lifecycle = Singleton, token = Logger\<rparr>"
    by (simp add: engine_defs)
  have i: "\<forall>args objs. body ConsoleLogger args objs = Returns" by simp
  note th = C5_singleton_identity [OF a b c d e]
  from th f have g: "Obj 0 0 \<in> set (objects (snd (resolve demo Logger)))" by blast
  from th f obtain b0 where "map_of (bindings (this demo)) (symbol Logger) = Some b0"
    and imp: "(\<forall>args objs. body (implementation b0) args objs = Returns) \<longrightarrow>
       Obj 0 0 \<notin> set (objects demo) \<and> class_of (Obj 0 0) = cid (implementation b0)"
    by blast
  with h have "implementation b0 = ConsoleLogger" by auto
  with imp i have j: "Obj 0 0 \<notin> set (objects demo)" by simp
  from a b c d e f g h i j show ?thesis by simp
qed




section \<open>clear and reset\<close>




section \<open>Unknown tokens\<close>

text \<open>
  C8 as stated fails in its second part, in two ways. Where \<^verbatim>\<open>resolve(A)\<close> does not reach
  the construction: Database was registered with a class without dependencies and
  resolved, and then registered again with PostgresDatabase, which declares a logger; no
  logger is registered, and \<^verbatim>\<open>resolve(Database)\<close> returns the cached object. And in the
  revision with ambient context: SmtpEmailService fetches the logger with \<^verbatim>\<open>get\<close>, no
  logger is registered, and \<^verbatim>\<open>resolve(EmailService)\<close> throws InvalidConstructor for
  EmailService, not DependencyNotFound.
\<close>

theorem C8_counterexample:
  "map (\<lambda>(k, b). (description (token b), cname (implementation b), getInjectTokens (implementation b)))
     (bindings (this (run [Register Database (Fn Standalone), Resolve Database,
        Register Database (Fn PostgresDatabase)] fresh))) =
     [(''Database'', ''PostgresDatabase'', Some [Tok Logger])] \<and>
   \<not> isRegistered (this (run [Register Database (Fn Standalone), Resolve Database,
        Register Database (Fn PostgresDatabase)] fresh)) Logger \<and>
   fst (resolve (run [Register Database (Fn Standalone), Resolve Database,
        Register Database (Fn PostgresDatabase)] fresh) Database) = Inr (Obj 0 (cid Standalone)) \<and>
   isRegistered (containers (partial_ctx None) True) EmailService \<and>
   gets SmtpEmailService = [Logger] \<and>
   \<not> isRegistered (containers (partial_ctx None) True) Logger \<and>
   fst (resolve_ctx (partial_ctx None) True EmailService) =
     Inl (InvalidConstructorError EmailService
       ''Failed to instantiate: Dependency not found: Logger (Symbol(Logger))'')"
  by (simp add: isRegistered_def engine_defs)

text \<open>
  C8, amended: \<^verbatim>\<open>resolve\<close> of a token without binding throws DependencyNotFound for that
  token and leaves the state as it was, so nothing is constructed (in both revisions).
  With constructor injection, if the class bound to a token A declares a dependency on a
  token B that is not registered, the declared dependencies before B resolving, then a
  \<^verbatim>\<open>resolve(A)\<close> that reaches the construction (A is not in flight and not returned from
  the cache) throws DependencyNotFound for B: the message carries B's description, not
  A's. With ambient context, if the constructor of the class bound to A calls \<^verbatim>\<open>get(B)\<close>
  for a token B that is not registered, the \<^verbatim>\<open>get\<close> calls before it returning, then a
  \<^verbatim>\<open>resolve(A)\<close> that reaches the construction throws InvalidConstructor for A, and its
  message quotes the message of DependencyNotFound for B.
\<close>

theorem C8_dependency_not_found:
  "(\<not> isRegistered (this rt) tok \<longrightarrow>
      resolve rt tok = (Inl (DependencyNotFoundError tok), rt)) \<and>
   (\<not> isRegistered (containers w c) tokc \<longrightarrow>
      resolve_ctx w c tokc = (Inl (DependencyNotFoundError tokc), w)) \<and>
   (map_of (bindings (this rt)) (symbol A) = Some bA \<and>
    \<not> list_ex (\<lambda>t. symbol t = symbol A) (resolutionStack (this rt)) \<and>
    \<not> (lifecycle bA = Singleton \<and> has (singletons (this rt)) (symbol A)) \<and>
    getInjectTokens (implementation bA) = Some (pre @ Tok B # post) \<and>
    fst (resolveDeps (push A rt) A pre) = Inr vs \<and>
    \<not> isRegistered (this rt) B \<longrightarrow>
      fst (resolve rt A) = Inl (DependencyNotFoundError B) \<and>
      message (DependencyNotFoundError B) =
        ''Dependency not found: '' @ description B @ '' ('' @ toString (symbol B) @ '')'') \<and>
   (constructs w c E \<and> map_of (bindings (containers w c)) (symbol E) = Some bE \<and>
    gets (implementation bE) = before @ F # after \<and>
    fst (gets_run (push_ctx c E (setContainer c w)) before) = None \<and>
    \<not> isRegistered (containers w c) F \<longrightarrow>
      fst (resolve_ctx w c E) =
        Inl (InvalidConstructorError E
          (''Failed to instantiate: '' @ message (DependencyNotFoundError F))) \<and>
      message (InvalidConstructorError E
          (''Failed to instantiate: '' @ message (DependencyNotFoundError F))) =
        ''Invalid constructor for '' @ description E @ '': Failed to instantiate: '' @
        ''Dependency not found: '' @ description F @ '' ('' @ toString (symbol F) @ '')'')"
  using resolve_unregistered[of rt tok] missing_dependency_resolve[of rt A bA pre B post vs]
    resolve_ctx_unregistered[of w c tokc]
    resolve_ctx_wraps[of w c E bE before F after "DependencyNotFoundError F"]
    get_unregistered[of w c F E before]
  by simp

theorem C8_dependency_not_found_witness:
  "\<not> isRegistered (this incomplete) Database \<and>
   resolve incomplete Database = (Inl (DependencyNotFoundError Database), incomplete) \<and>
   map_of (bindings (this incomplete)) (symbol UserService) =
     Some \<lparr>implementation = UserServiceImpl, lifecycle = Transient, token = UserService\<rparr> \<and>
   getInjectTokens UserServiceImpl = Some [Tok Logger, Tok Database] \<and>
   fst (resolveDeps (push UserService incomplete) UserService [Tok Logger]) = Inr [Some (Obj 0 0)] \<and>
   fst (resolve incomplete UserService) = Inl (DependencyNotFoundError Database) \<and>
   message (DependencyNotFoundError Database) = ''Dependency not found: Database (Symbol(Database))'' \<and>
   \<not> isRegistered (containers (partial_ctx None) True) Logger \<and>
   resolve_ctx (partial_ctx None) True Logger =
     (Inl (DependencyNotFoundError Logger), partial_ctx None) \<and>
   constructs (partial_ctx None) True EmailService \<and>
   gets SmtpEmailService = [] @ Logger # [] \<and>
   fst (gets_run (push_ctx True EmailService (setContainer True (partial_ctx None))) []) = None \<and>
   fst (resolve_ctx (partial_ctx None) True EmailService) =
     Inl (InvalidConstructorError EmailService
       (''Failed to instantiate: '' @ message (DependencyNotFoundError Logger)))"
proof -
  let ?bU = "\<lparr>implementation = UserServiceImpl, lifecycle = Transient, token = UserService\<rparr>"
  let ?bE = "\<lparr>implementation = SmtpEmailService, lifecycle = Singleton, token = EmailService\<rparr>"
  let ?w1 = "push_ctx True EmailService (setContainer True (partial_ctx None))"
  have a: "\<not> isRegistered (this incomplete) Database"
    by (simp add: isRegistered_def engine_defs)
  have b: "map_of (bindings (this incomplete)) (symbol UserService) = Some ?bU"
    by (simp add: engine_defs)
  have c: "\<not> list_ex (\<lambda>t. symbol t = symbol UserService) (resolutionStack (this incomplete))"
    by (simp add: engine_defs)
  have d: "getInjectTokens UserServiceImpl = Some ([Tok Logger] @ Tok Database # [])"
    by (simp add: engine_defs)
  have e: "fst (resolveDeps (push UserService incomplete) UserService [Tok Logger]) =
      Inr [Some (Obj 0 0)]"
    by (simp add: engine_defs)
  have f: "constructs (partial_ctx None) True EmailService"
    by (simp add: constructs_def engine_defs)
  have g: "map_of (bindings (containers (partial_ctx None) True)) (symbol EmailService) = Some ?bE"
    by (simp add: engine_defs)
  have h: "gets (implementation ?bE) = [] @ Logger # []" by simp
  have i: "fst (gets_run ?w1 []) = None" by simp
  have j: "\<not> isRegistered (containers (partial_ctx None) True) Logger"
    by (simp add: isRegistered_def engine_defs)
  note th = C8_dependency_not_found [where rt = incomplete and tok = Database and A = UserService
      and bA = ?bU and pre = "[Tok Logger]" and B = Database and post = "[]"
      and vs = "[Some (Obj 0 0)]" and w = "partial_ctx None" and c = True and tokc = Logger
      and E = EmailService and bE = ?bE and before = "[]" and F = Logger and after = "[]"]
  from th a have k: "resolve incomplete Database = (Inl (DependencyNotFoundError Database), incomplete)"
    by blast
  from th j have l: "resolve_ctx (partial_ctx None) True Logger =
      (Inl (DependencyNotFoundError Logger), partial_ctx None)"
    by blast
  have m: "\<not> (lifecycle ?bU = Singleton \<and> has (singletons (this incomplete)) (symbol UserService))"
    by simp
  have d': "getInjectTokens (implementation ?bU) = Some ([Tok Logger] @ Tok Database # [])"
    using d by simp
  from th a b c m d' e have n: "fst (resolve incomplete UserService) =
      Inl (DependencyNotFoundError Database)"
    by blast
  from th f g h i j have o: "fst (resolve_ctx (partial_ctx None) True EmailService) =
      Inl (InvalidConstructorError EmailService
        (''Failed to instantiate: '' @ message (DependencyNotFoundError Logger)))"
    by blast
  have p: "message (DependencyNotFoundError Database) =
      ''Dependency not found: Database (Symbol(Database))''"
    by (simp add: toString_def createToken_def)
  from a b d e f h i j k l n o p show ?thesis by simp
qed

section \<open>The active container\<close>





text \<open>
  C10 as stated fails: a call that throws at the first check installs nothing. With no
  active container, resolving a token that the container does not bind throws
  DependencyNotFound and leaves no container active, so \<^verbatim>\<open>getContainer\<close> still throws.
\<close>

theorem C10_counterexample:
  "activeContainer (demo_ctx None) = None \<and>
   fst (resolve_ctx (demo_ctx None) False Logger) = Inl (DependencyNotFoundError Logger) \<and>
   activeContainer (snd (resolve_ctx (demo_ctx None) False Logger)) = None \<and>
   getContainer (snd (resolve_ctx (demo_ctx None) False Logger)) = Inl NoActiveContainerError"
  by (simp add: engine_defs)

text \<open>
  C10, amended: with no container active before the call, the resolving container is the
  active one afterwards exactly when the call reached the construction, whether the
  construction succeeded or failed; a call stopped by one of the three checks leaves no
  container active.
\<close>

theorem C10_container_stays_installed:
  "activeContainer w = None \<Longrightarrow>
     activeContainer (snd (resolve_ctx w c tok)) = (if constructs w c tok then Some c else None) \<and>
     getContainer (snd (resolve_ctx w c tok)) =
       (if constructs w c tok then Inr c else Inl NoActiveContainerError)"
  by (simp add: resolve_ctx_installs resolve_ctx_skips getContainer_def)

theorem C10_container_stays_installed_witness:
  "activeContainer (partial_ctx None) = None \<and> constructs (partial_ctx None) True EmailService \<and>
   fst (resolve_ctx (partial_ctx None) True EmailService) =
     Inl (InvalidConstructorError EmailService
       ''Failed to instantiate: Dependency not found: Logger (Symbol(Logger))'') \<and>
   activeContainer (snd (resolve_ctx (partial_ctx None) True EmailService)) = Some True \<and>
   getContainer (snd (resolve_ctx (partial_ctx None) True EmailService)) = Inr True"
proof -
  have a: "activeContainer (partial_ctx None) = None" by simp
  have b: "constructs (partial_ctx None) True EmailService"
    by (simp add: constructs_def engine_defs)
  from C10_container_stays_installed [OF a, of True EmailService] a b
  show ?thesis by (simp add: partial_ctx_fails)
qed


end
